theory Spec2Isabelle
  imports Main "HOL-Library.Product_Lexorder" "HOL-Library.Word"
begin

section \<open>Muelsyse-CI control plane: a shallow embedding\<close>

text \<open>
  The development follows the Python sources under \<open>apps/\<close>: the execution tables
  (\<open>executions/models.py\<close>, \<open>executions/views.py\<close>), the runner session
  (\<open>runners/consumers.py\<close>), the matrix expander (\<open>pipelines/matrix.py\<close>), the log
  subscriber (\<open>logs/consumers.py\<close>), the signature verifier (\<open>webhooks/utils.py\<close>), the
  trigger matcher (\<open>pipelines/matcher.py\<close>), the webhook view (\<open>webhooks/views.py\<close>) and the
  YAML parser (\<open>pipelines/parser.py\<close>).

  Conventions. Python strings are \<open>string\<close>; UUID primary keys are natural numbers;
  a raised exception is the left injection of a sum; a Django table is the list of its rows;
  \<open>timezone.now()\<close> is a parameter \<open>now\<close>.
\<close>

datatype py_exn = AttributeError | TypeError | IntegrityError | RecursionError

subsection \<open>Executions and their numbering\<close>

text \<open>
  \<open>Execution\<close> of \<open>executions/models.py\<close>, with the columns that the modelled code reads
  or that identify the row. \<open>Meta.unique_together = ['pipeline', 'number']\<close> is enforced by
  \<open>objects_create\<close>, which raises \<open>IntegrityError\<close> as the database does.
\<close>

record execution =
  ex_id :: nat
  ex_tenant :: nat
  ex_pipeline :: nat
  ex_pipeline_config :: "nat option"
  ex_number :: nat
  ex_trigger_type :: string
  ex_status :: string

type_synonym execution_table = "execution list"

definition objects_create :: "execution_table \<Rightarrow> execution \<Rightarrow> py_exn + execution_table" where
  "objects_create tbl e =
     (if list_ex (\<lambda>e'. ex_pipeline e' = ex_pipeline e \<and> ex_number e' = ex_number e) tbl
      then Inl IntegrityError
      else Inr (tbl @ [e]))"

text \<open>\<open>Execution.objects.filter(pipeline=p)\<close>.\<close>

definition filter_pipeline :: "execution_table \<Rightarrow> nat \<Rightarrow> execution list" where
  "filter_pipeline tbl p = filter (\<lambda>e. ex_pipeline e = p) tbl"

text \<open>\<open>.order_by('-number').values_list('number', flat=True).first()\<close>: the largest number,
  or \<open>None\<close> on an empty query set.\<close>

definition first_number_desc :: "execution list \<Rightarrow> nat option" where
  "first_number_desc es =
     (case rev (sort (map ex_number es)) of [] \<Rightarrow> None | n # _ \<Rightarrow> Some n)"

text \<open>Python's \<open>x or 0\<close> on an optional number (\<open>0\<close> itself is falsy and gives \<open>0\<close>).\<close>

definition or_zero :: "nat option \<Rightarrow> nat" where
  "or_zero x = (case x of None \<Rightarrow> 0 | Some n \<Rightarrow> (if n = 0 then 0 else n))"

text \<open>\<open>Execution.get_next_number\<close>.\<close>

definition get_next_number :: "execution_table \<Rightarrow> nat \<Rightarrow> nat" where
  "get_next_number tbl p = or_zero (first_number_desc (filter_pipeline tbl p)) + 1"

text \<open>
  \<open>ExecutionViewSet.retry\<close> of \<open>executions/views.py\<close>. The view answers 400 unless the status
  is failed, cancelled or timeout, and otherwise creates a row whose number is
  \<open>Execution.objects.filter(pipeline=execution.pipeline).count() + 1\<close>.
\<close>

datatype retry_response = Bad_Request | Created nat nat

definition retry_number :: "execution_table \<Rightarrow> nat \<Rightarrow> nat" where
  "retry_number tbl p = length (filter_pipeline tbl p) + 1"

definition retry :: "nat \<Rightarrow> execution_table \<Rightarrow> execution \<Rightarrow> py_exn + (execution_table \<times> retry_response)" where
  "retry new_id tbl e =
     (if ex_status e \<notin> set [''failed'', ''cancelled'', ''timeout'']
      then Inr (tbl, Bad_Request)
      else
        (case objects_create tbl
                \<lparr> ex_id = new_id, ex_tenant = ex_tenant e, ex_pipeline = ex_pipeline e,
                  ex_pipeline_config = ex_pipeline_config e,
                  ex_number = retry_number tbl (ex_pipeline e),
                  ex_trigger_type = ''manual'', ex_status = ''pending'' \<rparr> of
           Inl x \<Rightarrow> Inl x
         | Inr tbl' \<Rightarrow> Inr (tbl', Created new_id (retry_number tbl (ex_pipeline e)))))"

text \<open>A pipeline whose execution 1 has been deleted and whose execution 2 failed.\<close>

definition pruned_table :: execution_table where
  "pruned_table =
     [\<lparr> ex_id = 7, ex_tenant = 1, ex_pipeline = 1, ex_pipeline_config = Some 1,
        ex_number = 2, ex_trigger_type = ''push'', ex_status = ''failed'' \<rparr>]"

subsection \<open>Status updates from a runner\<close>

text \<open>
  \<open>RunnerConsumer.update_entity_status\<close> of \<open>runners/consumers.py\<close>. The function builds
  the dictionary \<open>update_fields\<close> and passes it to \<open>filter(id=entity_id).update\<close>. The
  status is the string of the message. The rows carry the columns that the update writes.
\<close>

record entity =
  en_id :: nat
  en_status :: string
  en_exit_code :: "int option"
  en_started_at :: "nat option"
  en_finished_at :: "nat option"
  en_outputs :: "(string \<times> string) list"

record update_fields =
  uf_status :: string
  uf_exit_code :: "int option"
  uf_started_at :: "nat option"
  uf_finished_at :: "nat option"
  uf_outputs :: "(string \<times> string) list option"

text \<open>A key that is absent from \<open>update_fields\<close> is \<open>None\<close>; the column is then left alone.\<close>

definition job_update_fields :: "nat \<Rightarrow> string \<Rightarrow> (string \<times> string) list \<Rightarrow> update_fields" where
  "job_update_fields now status outputs =
     (let uf = \<lparr> uf_status = status, uf_exit_code = None, uf_started_at = None,
                  uf_finished_at = None, uf_outputs = None \<rparr>
      in if status = ''running'' then uf\<lparr> uf_started_at := Some now \<rparr>
         else if status \<in> set [''success'', ''failed'', ''cancelled'', ''timeout'']
         then uf\<lparr> uf_finished_at := Some now, uf_outputs := Some outputs \<rparr>
         else uf)"

definition step_update_fields ::
  "nat \<Rightarrow> string \<Rightarrow> int option \<Rightarrow> (string \<times> string) list \<Rightarrow> update_fields" where
  "step_update_fields now status exit_code outputs =
     (let uf = \<lparr> uf_status = status, uf_exit_code = None, uf_started_at = None,
                  uf_finished_at = None, uf_outputs = None \<rparr>;
          uf = (if exit_code \<noteq> None then uf\<lparr> uf_exit_code := exit_code \<rparr> else uf)
      in if status = ''running'' then uf\<lparr> uf_started_at := Some now \<rparr>
         else if status \<in> set [''success'', ''failed'', ''cancelled'', ''timeout'', ''skipped'']
         then uf\<lparr> uf_finished_at := Some now, uf_outputs := Some outputs \<rparr>
         else uf)"

text \<open>\<open>QuerySet.update(**update_fields)\<close> on the rows with the given id.\<close>

definition apply_update :: "update_fields \<Rightarrow> entity \<Rightarrow> entity" where
  "apply_update uf e =
     e\<lparr> en_status := uf_status uf,
        en_exit_code := (case uf_exit_code uf of None \<Rightarrow> en_exit_code e | Some c \<Rightarrow> Some c),
        en_started_at := (case uf_started_at uf of None \<Rightarrow> en_started_at e | Some t \<Rightarrow> Some t),
        en_finished_at := (case uf_finished_at uf of None \<Rightarrow> en_finished_at e | Some t \<Rightarrow> Some t),
        en_outputs := (case uf_outputs uf of None \<Rightarrow> en_outputs e | Some out \<Rightarrow> out) \<rparr>"

definition filter_update :: "nat \<Rightarrow> update_fields \<Rightarrow> entity list \<Rightarrow> entity list" where
  "filter_update entity_id uf tbl = map (\<lambda>e. if en_id e = entity_id then apply_update uf e else e) tbl"

record status_db =
  jobs_tbl :: "entity list"
  steps_tbl :: "entity list"

definition update_entity_status ::
  "nat \<Rightarrow> status_db \<Rightarrow> string \<Rightarrow> nat \<Rightarrow> string \<Rightarrow> int option \<Rightarrow> (string \<times> string) list \<Rightarrow> status_db" where
  "update_entity_status now db entity_type entity_id status exit_code outputs =
     (if entity_type = ''job''
      then db\<lparr> jobs_tbl := filter_update entity_id (job_update_fields now status outputs) (jobs_tbl db) \<rparr>
      else if entity_type = ''step''
      then db\<lparr> steps_tbl :=
                 filter_update entity_id (step_update_fields now status exit_code outputs) (steps_tbl db) \<rparr>
      else db)"

text \<open>The terminal statuses of the life cycle in \<open>Job.Status\<close> and \<open>Step.Status\<close>.\<close>

definition terminal :: "string \<Rightarrow> bool" where
  "terminal s = (s \<in> set [''success'', ''failed'', ''cancelled'', ''timeout'', ''skipped''])"

definition running_job_db :: status_db where
  "running_job_db =
     \<lparr> jobs_tbl = [\<lparr> en_id = 3, en_status = ''running'', en_exit_code = None,
                      en_started_at = Some 10, en_finished_at = None, en_outputs = [] \<rparr>],
       steps_tbl = [\<lparr> en_id = 3, en_status = ''running'', en_exit_code = None,
                       en_started_at = Some 10, en_finished_at = None, en_outputs = [] \<rparr>] \<rparr>"

subsection \<open>Matrix expansion\<close>

text \<open>
  \<open>pipelines/matrix.py\<close>. A Python dictionary whose order matters is an association list
  in insertion order, with distinct keys; \<open>map_of\<close> is the lookup. Matrix values are of
  any type \<open>'v\<close> on which Python's \<open>==\<close> is equality (strings, or integers).
  The \<open>matrix\<close> dictionary has the keys \<open>variables\<close>, \<open>include\<close> and \<open>exclude\<close>, each
  of which may be absent; it is falsy when all are.
\<close>

type_synonym 'v dict = "(string \<times> 'v) list"

record 'v matrix =
  mx_variables :: "(string \<times> 'v list) list option"
  mx_include :: "'v dict list option"
  mx_exclude :: "'v dict list option"

record 'v strategy =
  st_fail_fast :: bool
  st_max_parallel :: "nat option"
  st_matrix :: "'v matrix option"

text \<open>\<open>d.get(key, default)\<close> on an optional entry.\<close>

definition get_or :: "'a option \<Rightarrow> 'a \<Rightarrow> 'a" where
  "get_or x d = (case x of None \<Rightarrow> d | Some v \<Rightarrow> v)"

text \<open>\<open>itertools.product(*values)\<close>: the rightmost list advances fastest, and no list at all
  gives the one empty tuple.\<close>

fun itertools_product :: "'a list list \<Rightarrow> 'a list list" where
  "itertools_product [] = [[]]"
| "itertools_product (xs # xss) = concat (map (\<lambda>x. map ((#) x) (itertools_product xss)) xs)"

text \<open>\<open>_matches_pattern(combination, pattern)\<close>: the loop over \<open>pattern.items()\<close>.\<close>

fun mx_matches_pattern :: "'v dict \<Rightarrow> 'v dict \<Rightarrow> bool" where
  "mx_matches_pattern combination [] = True"
| "mx_matches_pattern combination ((key, val) # pattern) =
     (if map_of combination key = None \<or> map_of combination key \<noteq> Some val then False
      else mx_matches_pattern combination pattern)"

text \<open>\<open>_should_exclude(combination, exclude_list)\<close>.\<close>

fun should_exclude :: "'v dict \<Rightarrow> 'v dict list \<Rightarrow> bool" where
  "should_exclude combination [] = False"
| "should_exclude combination (exclude_pattern # exclude_list) =
     (if mx_matches_pattern combination exclude_pattern then True
      else should_exclude combination exclude_list)"

definition matrix_falsy :: "'v matrix option \<Rightarrow> bool" where
  "matrix_falsy m =
     (case m of None \<Rightarrow> True
      | Some mx \<Rightarrow> mx_variables mx = None \<and> mx_include mx = None \<and> mx_exclude mx = None)"

text \<open>\<open>expand_matrix(strategy)\<close>; the generator's yields are the list, in order.\<close>

definition expand_matrix :: "'v strategy \<Rightarrow> 'v dict list" where
  "expand_matrix strategy =
     (if matrix_falsy (st_matrix strategy) then [[]]
      else
        (case st_matrix strategy of
           None \<Rightarrow> [[]]
         | Some matrix \<Rightarrow>
             (let variables = get_or (mx_variables matrix) [];
                  include = get_or (mx_include matrix) [];
                  exclude = get_or (mx_exclude matrix) []
              in (if variables \<noteq> []
                  then (let keys = map fst variables;
                            vals = map snd variables
                        in filter (\<lambda>combination. \<not> should_exclude combination exclude)
                             (map (zip keys) (itertools_product vals)))
                  else [])
                 @ include)))"

text \<open>\<open>count_matrix_combinations(strategy)\<close>: \<open>sum(1 for _ in expand_matrix(strategy))\<close>.\<close>

definition count_matrix_combinations :: "'v strategy \<Rightarrow> nat" where
  "count_matrix_combinations strategy = length (expand_matrix strategy)"

text \<open>
  The expansion in the specification's words. The cartesian product over the variables in
  declaration order: one combination per choice of a value for every variable, the first
  variable varying slowest; over no variable it is the one empty combination. A pattern
  matches a combination when every key of the pattern has the pattern's value there.
\<close>

fun cartesian :: "(string \<times> 'v list) list \<Rightarrow> 'v dict list" where
  "cartesian [] = [[]]"
| "cartesian ((k, vs) # rest) = concat (map (\<lambda>v. map ((#) (k, v)) (cartesian rest)) vs)"

definition pattern_matches :: "'v dict \<Rightarrow> 'v dict \<Rightarrow> bool" where
  "pattern_matches pattern combination = (\<forall>(k, v) \<in> set pattern. map_of combination k = Some v)"

definition excluded :: "'v dict list \<Rightarrow> 'v dict \<Rightarrow> bool" where
  "excluded exclude combination = (\<exists>pattern \<in> set exclude. pattern_matches pattern combination)"

text \<open>The three entries of the matrix of a strategy, with the defaults of \<open>get\<close>.\<close>

definition variables_of :: "'v strategy \<Rightarrow> (string \<times> 'v list) list" where
  "variables_of strategy =
     (case st_matrix strategy of None \<Rightarrow> [] | Some matrix \<Rightarrow> get_or (mx_variables matrix) [])"

definition include_of :: "'v strategy \<Rightarrow> 'v dict list" where
  "include_of strategy =
     (case st_matrix strategy of None \<Rightarrow> [] | Some matrix \<Rightarrow> get_or (mx_include matrix) [])"

definition exclude_of :: "'v strategy \<Rightarrow> 'v dict list" where
  "exclude_of strategy =
     (case st_matrix strategy of None \<Rightarrow> [] | Some matrix \<Rightarrow> get_or (mx_exclude matrix) [])"

definition spec_expand_matrix :: "'v strategy \<Rightarrow> 'v dict list" where
  "spec_expand_matrix strategy =
     (if matrix_falsy (st_matrix strategy) then [[]]
      else filter (\<lambda>c. \<not> excluded (exclude_of strategy) c) (cartesian (variables_of strategy))
           @ include_of strategy)"

text \<open>The count in the specification's words: the product of the lengths of the value
  lists, minus the excluded combinations of the product, plus the include entries; the empty
  matrix counts 1.\<close>

definition spec_count :: "'v strategy \<Rightarrow> nat" where
  "spec_count strategy =
     (if matrix_falsy (st_matrix strategy) then 1
      else prod_list (map (length \<circ> snd) (variables_of strategy))
           - length (filter (excluded (exclude_of strategy)) (cartesian (variables_of strategy)))
           + length (include_of strategy))"

text \<open>The same, except that a non-empty matrix without variables has no base product.\<close>

definition base_product :: "(string \<times> 'v list) list \<Rightarrow> 'v dict list" where
  "base_product variables = (if variables = [] then [] else cartesian variables)"

definition amended_expand_matrix :: "'v strategy \<Rightarrow> 'v dict list" where
  "amended_expand_matrix strategy =
     (if matrix_falsy (st_matrix strategy) then [[]]
      else filter (\<lambda>c. \<not> excluded (exclude_of strategy) c) (base_product (variables_of strategy))
           @ include_of strategy)"

definition amended_count :: "'v strategy \<Rightarrow> nat" where
  "amended_count strategy =
     (if matrix_falsy (st_matrix strategy) then 1
      else (if variables_of strategy = [] then 0
            else prod_list (map (length \<circ> snd) (variables_of strategy)))
           - length (filter (excluded (exclude_of strategy)) (base_product (variables_of strategy)))
           + length (include_of strategy))"

text \<open>A matrix that has include entries and no variable.\<close>

definition include_only :: "string strategy" where
  "include_only =
     \<lparr> st_fail_fast = True, st_max_parallel = None,
       st_matrix = Some \<lparr> mx_variables = Some [],
                          mx_include = Some [[(''os'', ''ubuntu'')]],
                          mx_exclude = Some [] \<rparr> \<rparr>"

text \<open>Scenario S4 of the specification.\<close>

definition scenario_S4 :: "string strategy" where
  "scenario_S4 =
     \<lparr> st_fail_fast = True, st_max_parallel = None,
       st_matrix = Some
         \<lparr> mx_variables = Some [(''os'', [''ubuntu'', ''macos'']), (''node'', [''18'', ''20''])],
           mx_include = Some [[(''os'', ''ubuntu''), (''node'', ''16''), (''experimental'', ''true'')]],
           mx_exclude = Some [[(''os'', ''macos''), (''node'', ''18'')]] \<rparr> \<rparr>"

subsection \<open>Log history for a subscriber\<close>

text \<open>
  \<open>LogConsumer\<close> of \<open>logs/consumers.py\<close>, over the tables \<open>Job\<close>, \<open>Step\<close> and
  \<open>LogChunk\<close>. Primary keys are unique; \<open>order_by\<close> compares the key triples
  lexicographically.
\<close>

record job_row =
  jb_id :: nat
  jb_execution_id :: nat

record step_row =
  sp_id :: nat
  sp_job_id :: nat
  sp_order :: nat

record log_chunk =
  lc_step_id :: nat
  lc_chunk_number :: nat
  lc_content :: string
  lc_level :: string
  lc_timestamp :: nat

record logs_db =
  job_tbl :: "job_row list"
  step_tbl :: "step_row list"
  chunk_tbl :: "log_chunk list"

datatype frame =
    Connected nat "nat option"
  | Log nat nat nat string string
  | History_Complete nat
  | Status_Update_Frame string nat string nat
  | Pong

text \<open>The steps of the subscription: those of the job when a job id is given, those of
  all jobs of the execution otherwise.\<close>

definition subscribed_steps :: "logs_db \<Rightarrow> nat \<Rightarrow> nat option \<Rightarrow> step_row list" where
  "subscribed_steps db execution_id job_id =
     (case job_id of
        Some j \<Rightarrow> filter (\<lambda>s. sp_job_id s = j) (step_tbl db)
      | None \<Rightarrow>
          (let job_ids = map jb_id (filter (\<lambda>j. jb_execution_id j = execution_id) (job_tbl db))
           in filter (\<lambda>s. sp_job_id s \<in> set job_ids) (step_tbl db)))"

text \<open>\<open>LogChunk.objects.filter(step_id__in=step_ids)\<close> joined with its step, as
  \<open>order_by('step__job_id', 'step__order', 'chunk_number')\<close> needs.\<close>

definition joined_chunks :: "logs_db \<Rightarrow> step_row list \<Rightarrow> (step_row \<times> log_chunk) list" where
  "joined_chunks db steps =
     concat (map (\<lambda>c. map (\<lambda>s. (s, c)) (filter (\<lambda>s. sp_id s = lc_step_id c) steps))
                 (filter (\<lambda>c. lc_step_id c \<in> set (map sp_id steps)) (chunk_tbl db)))"

definition order_key :: "step_row \<times> log_chunk \<Rightarrow> nat \<times> nat \<times> nat" where
  "order_key r = (sp_job_id (fst r), sp_order (fst r), lc_chunk_number (snd r))"

definition ordered_chunks :: "logs_db \<Rightarrow> nat \<Rightarrow> nat option \<Rightarrow> (step_row \<times> log_chunk) list" where
  "ordered_chunks db execution_id job_id =
     sort_key order_key (joined_chunks db (subscribed_steps db execution_id job_id))"

text \<open>The query set \<open>logs\<close>: the slice \<open>[:1000]\<close> of the ordered chunks.\<close>

definition history_chunks :: "logs_db \<Rightarrow> nat \<Rightarrow> nat option \<Rightarrow> (step_row \<times> log_chunk) list" where
  "history_chunks db execution_id job_id = take 1000 (ordered_chunks db execution_id job_id)"

definition log_frame :: "step_row \<times> log_chunk \<Rightarrow> frame" where
  "log_frame r =
     Log (sp_job_id (fst r)) (lc_step_id (snd r)) (lc_timestamp (snd r))
         (lc_content (snd r)) (lc_level (snd r))"

definition get_existing_logs :: "logs_db \<Rightarrow> nat \<Rightarrow> nat option \<Rightarrow> frame list" where
  "get_existing_logs db execution_id job_id = map log_frame (history_chunks db execution_id job_id)"

text \<open>\<open>send_history\<close>: the frames sent, in order.\<close>

definition send_history :: "logs_db \<Rightarrow> nat \<Rightarrow> nat option \<Rightarrow> frame list" where
  "send_history db execution_id job_id =
     (let logs = get_existing_logs db execution_id job_id
      in logs @ [History_Complete (length logs)])"

text \<open>
  \<open>connect\<close>, with the outcome of \<open>has_permission\<close> as a parameter: the frames sent while
  the connection is set up. The messages of the group (\<open>log_message\<close>, \<open>status_update\<close>)
  and the client's \<open>ping\<close> are handled one at a time after \<open>connect\<close> has returned; each
  handler sends one frame.
\<close>

datatype session_event =
    Log_Message nat nat nat string string
  | Status_Update string nat string nat
  | Ping

definition connect :: "bool \<Rightarrow> logs_db \<Rightarrow> nat \<Rightarrow> nat option \<Rightarrow> frame list" where
  "connect has_permission db execution_id job_id =
     (if \<not> has_permission then []
      else Connected execution_id job_id # send_history db execution_id job_id)"

fun handle_event :: "session_event \<Rightarrow> frame" where
  "handle_event (Log_Message j s t c l) = Log j s t c l"
| "handle_event (Status_Update ty i st t) = Status_Update_Frame ty i st t"
| "handle_event Ping = Pong"

definition session_frames ::
  "bool \<Rightarrow> logs_db \<Rightarrow> nat \<Rightarrow> nat option \<Rightarrow> session_event list \<Rightarrow> frame list" where
  "session_frames has_permission db execution_id job_id events =
     (if \<not> has_permission then []
      else connect has_permission db execution_id job_id @ map handle_event events)"

text \<open>
  The specification's side, written over the tables alone. A chunk, with its step, belongs to
  the subscription when the step is the chunk's step and is a step of the subscribed job, or,
  without a job, of some job of the subscribed execution. One chunk comes before or ties with
  another when its (job id, step order, chunk number) is lexicographically smaller or equal.
\<close>

definition in_subscription :: "logs_db \<Rightarrow> nat \<Rightarrow> nat option \<Rightarrow> step_row \<Rightarrow> log_chunk \<Rightarrow> bool" where
  "in_subscription db execution job s c \<longleftrightarrow>
     s \<in> set (step_tbl db) \<and> c \<in> set (chunk_tbl db) \<and> lc_step_id c = sp_id s
     \<and> (case job of
          Some j \<Rightarrow> sp_job_id s = j
        | None \<Rightarrow> (\<exists>jb \<in> set (job_tbl db). jb_id jb = sp_job_id s \<and> jb_execution_id jb = execution))"

definition history_before :: "step_row \<times> log_chunk \<Rightarrow> step_row \<times> log_chunk \<Rightarrow> bool" where
  "history_before x y \<longleftrightarrow>
     sp_job_id (fst x) < sp_job_id (fst y)
     \<or> (sp_job_id (fst x) = sp_job_id (fst y)
        \<and> (sp_order (fst x) < sp_order (fst y)
           \<or> (sp_order (fst x) = sp_order (fst y)
              \<and> lc_chunk_number (snd x) \<le> lc_chunk_number (snd y))))"

text \<open>The backlog in the specification's words: the most recent 1000 chunks, in order.\<close>

definition spec_history_chunks :: "logs_db \<Rightarrow> nat \<Rightarrow> nat option \<Rightarrow> (step_row \<times> log_chunk) list" where
  "spec_history_chunks db execution_id job_id =
     (let all = ordered_chunks db execution_id job_id
      in drop (length all - 1000) all)"

text \<open>One step with 1001 chunks, numbered and stamped 0 to 1000.\<close>

definition chunk_of :: "nat \<Rightarrow> log_chunk" where
  "chunk_of n = \<lparr> lc_step_id = 5, lc_chunk_number = n, lc_content = ''line'',
                  lc_level = ''info'', lc_timestamp = n \<rparr>"

definition long_log_db :: logs_db where
  "long_log_db =
     \<lparr> job_tbl = [\<lparr> jb_id = 2, jb_execution_id = 4 \<rparr>],
       step_tbl = [\<lparr> sp_id = 5, sp_job_id = 2, sp_order = 0 \<rparr>],
       chunk_tbl = map chunk_of [0..<1001] \<rparr>"

subsection \<open>Webhook signature verification\<close>

text \<open>
  \<open>GitHubSignatureVerifier\<close> of \<open>webhooks/utils.py\<close>. A \<open>str\<close> is a \<open>string\<close> whose
  characters are the code points below 256 (request headers are decoded as Latin-1); \<open>bytes\<close>
  are lists of 8-bit words. The keyed hash \<open>hmac.new(key, msg, hashlib.sha256).digest()\<close>
  is the parameter \<open>mac\<close>: the verifier is modelled for any such function.
\<close>

type_synonym bytes = "8 word list"

definition SIGNATURE_PREFIX :: string where
  "SIGNATURE_PREFIX = ''sha256=''"

text \<open>\<open>s.startswith(p)\<close>.\<close>

definition startswith :: "string \<Rightarrow> string \<Rightarrow> bool" where
  "startswith s p = (take (length p) s = p)"

text \<open>\<open>str.encode('utf-8')\<close> on code points below 256.\<close>

definition encode_utf8 :: "string \<Rightarrow> bytes" where
  "encode_utf8 s =
     concat (map (\<lambda>c. let n = (of_char c :: nat)
                       in if n < 128 then [of_nat n]
                          else [of_nat (192 + n div 64), of_nat (128 + n mod 64)]) s)"

text \<open>\<open>hexdigest()\<close>: two lower-case hexadecimal digits per byte.\<close>

definition hexdigit :: "nat \<Rightarrow> char" where
  "hexdigit n = ''0123456789abcdef'' ! (n mod 16)"

definition hexdigest :: "bytes \<Rightarrow> string" where
  "hexdigest bs = concat (map (\<lambda>b. [hexdigit (unat b div 16), hexdigit (unat b mod 16)]) bs)"

text \<open>\<open>hmac.compare_digest(a, b)\<close> on two \<open>str\<close>: a \<open>TypeError\<close> unless both are ASCII.\<close>

definition is_ascii :: "string \<Rightarrow> bool" where
  "is_ascii s = list_all (\<lambda>c. (of_char c :: nat) < 128) s"

definition compare_digest :: "string \<Rightarrow> string \<Rightarrow> py_exn + bool" where
  "compare_digest a b = (if is_ascii a \<and> is_ascii b then Inr (a = b) else Inl TypeError)"

text \<open>\<open>__init__\<close>: \<open>self.secret = secret or self._get_default_secret()\<close>, where the default is
  the setting \<open>GITHUB_WEBHOOK_SECRET\<close>, or the empty string.\<close>

definition verifier_secret :: "string option \<Rightarrow> string option \<Rightarrow> string" where
  "verifier_secret secret setting =
     (case secret of
        Some s \<Rightarrow> (if s \<noteq> [] then s else (case setting of None \<Rightarrow> [] | Some d \<Rightarrow> d))
      | None \<Rightarrow> (case setting of None \<Rightarrow> [] | Some d \<Rightarrow> d))"

definition compute_signature :: "(bytes \<Rightarrow> bytes \<Rightarrow> bytes) \<Rightarrow> string \<Rightarrow> bytes \<Rightarrow> string" where
  "compute_signature mac secret payload = hexdigest (mac (encode_utf8 secret) payload)"

text \<open>\<open>verify(payload, signature)\<close>, on the verifier's secret.\<close>

definition verify :: "(bytes \<Rightarrow> bytes \<Rightarrow> bytes) \<Rightarrow> string \<Rightarrow> bytes \<Rightarrow> string \<Rightarrow> py_exn + bool" where
  "verify mac secret payload signature =
     (if secret = [] then Inr True
      else if signature = [] then Inr False
      else if \<not> startswith signature SIGNATURE_PREFIX then Inr False
      else (let provided_signature = drop (length SIGNATURE_PREFIX) signature;
                expected_signature = compute_signature mac secret payload
            in compare_digest expected_signature provided_signature))"

text \<open>\<open>verify_github_signature(payload, signature, secret)\<close>.\<close>

definition verify_github_signature ::
  "(bytes \<Rightarrow> bytes \<Rightarrow> bytes) \<Rightarrow> string option \<Rightarrow> bytes \<Rightarrow> string \<Rightarrow> string option \<Rightarrow> py_exn + bool" where
  "verify_github_signature mac setting payload signature secret =
     verify mac (verifier_secret secret setting) payload signature"

text \<open>
  The specification's side, written without the verifier's helpers: \<open>d\<close> is the hexadecimal
  digest of the bytes \<open>bs\<close> when reading \<open>d\<close> two lower-case hexadecimal digits at a time gives
  back exactly \<open>bs\<close>.
\<close>

definition hex_value :: "char \<Rightarrow> nat option" where
  "hex_value = map_of (zip ''0123456789abcdef'' [0 ..< 16])"

fun unhex :: "string \<Rightarrow> bytes option" where
  "unhex [] = Some []"
| "unhex [c] = None"
| "unhex (a # b # s) =
     (case (hex_value a, hex_value b, unhex s) of
        (Some h, Some l, Some bs) \<Rightarrow> Some (of_nat (16 * h + l) # bs)
      | _ \<Rightarrow> None)"

definition hex_digest_of :: "bytes \<Rightarrow> string \<Rightarrow> bool" where
  "hex_digest_of bs d = (unhex d = Some bs)"

text \<open>A string of hexadecimal digits.\<close>

definition is_hex :: "string \<Rightarrow> bool" where
  "is_hex s = list_all (\<lambda>c. c \<in> set ''0123456789abcdefABCDEF'') s"

text \<open>A keyed function that stands for the hash where a concrete one is needed.\<close>

definition sample_mac :: "bytes \<Rightarrow> bytes \<Rightarrow> bytes" where
  "sample_mac key msg = [of_nat (length key) + 0xA0, of_nat (length msg) + 0x1B]"

subsection \<open>Python values\<close>

text \<open>
  The values that \<open>yaml.safe_load\<close> loads and that the JSON column \<open>parsed_config\<close>
  stores: trees of null, booleans, integers, strings, lists and mappings (floating-point
  scalars are left out); a mapping is an association list in document order with distinct
  keys. An exception is a result on the left; \<open>then_do\<close> passes it on.
\<close>

datatype yaml =
    Y_Null | Y_Bool bool | Y_Int int | Y_Str string
  | Y_List "yaml list" | Y_Map "(yaml \<times> yaml) list"

definition then_do :: "py_exn + 'a \<Rightarrow> ('a \<Rightarrow> py_exn + 'b) \<Rightarrow> py_exn + 'b" where
  "then_do r f = (case r of Inl x \<Rightarrow> Inl x | Inr v \<Rightarrow> f v)"

text \<open>Truth value testing.\<close>

fun truthy :: "yaml \<Rightarrow> bool" where
  "truthy Y_Null = False"
| "truthy (Y_Bool b) = b"
| "truthy (Y_Int i) = (i \<noteq> 0)"
| "truthy (Y_Str s) = (s \<noteq> [])"
| "truthy (Y_List xs) = (xs \<noteq> [])"
| "truthy (Y_Map m) = (m \<noteq> [])"

text \<open>\<open>d.get(key, default)\<close> on a dictionary, and on any value: only a dictionary has
  \<open>get\<close>.\<close>

definition dict_get :: "(yaml \<times> yaml) list \<Rightarrow> string \<Rightarrow> yaml \<Rightarrow> yaml" where
  "dict_get m key dflt = (case map_of m (Y_Str key) of None \<Rightarrow> dflt | Some v \<Rightarrow> v)"

fun py_get :: "yaml \<Rightarrow> string \<Rightarrow> yaml \<Rightarrow> py_exn + yaml" where
  "py_get (Y_Map m) key dflt = Inr (dict_get m key dflt)"
| "py_get _ key dflt = Inl AttributeError"

text \<open>Iteration, as in \<open>for x in v\<close>: the elements of a list, the characters of a string,
  the keys of a dictionary; the other values are not iterable.\<close>

fun py_iter :: "yaml \<Rightarrow> py_exn + yaml list" where
  "py_iter (Y_List xs) = Inr xs"
| "py_iter (Y_Str s) = Inr (map (\<lambda>c. Y_Str [c]) s)"
| "py_iter (Y_Map m) = Inr (map fst m)"
| "py_iter _ = Inl TypeError"

subsection \<open>The pattern library: \<open>re\<close> and \<open>fnmatch\<close>\<close>

text \<open>
  The matcher of \<open>pipelines/matcher.py\<close> calls \<open>re.escape\<close>, \<open>str.replace\<close>,
  \<open>re.match\<close> and \<open>fnmatch.fnmatch\<close>. The first two are modelled in full. The
  last two are parameters of the matcher, collected in a record: \<open>re_match\<close> returns
  \<open>None\<close> where \<open>re.match\<close> raises \<open>re.error\<close> and \<open>Some (bool(m))\<close> otherwise.
  What is proved for every such record holds for Python's library.
\<close>

abbreviation bsl :: char where
  "bsl \<equiv> CHR 0x5C"

abbreviation newline :: char where
  "newline \<equiv> CHR 0x0A"

record pylib =
  re_match :: "string \<Rightarrow> string \<Rightarrow> bool option"
  fnmatch :: "string \<Rightarrow> string \<Rightarrow> bool"

text \<open>\<open>re.escape\<close> (Python 3.7 and later): a backslash before each special character.\<close>

definition re_special_chars :: string where
  "re_special_chars =
     ''()[]{}?*+-|^$'' @ [bsl] @ ''.&~# '' @ [CHR 0x09, CHR 0x0A, CHR 0x0D, CHR 0x0B, CHR 0x0C]"

definition re_escape :: "string \<Rightarrow> string" where
  "re_escape s = concat (map (\<lambda>c. if c \<in> set re_special_chars then [bsl, c] else [c]) s)"

text \<open>\<open>s.replace(old, new)\<close>: every occurrence of \<open>old\<close>, leftmost first and without
  overlap; an empty \<open>old\<close> inserts \<open>new\<close> around every character.\<close>

function (sequential) replace :: "string \<Rightarrow> string \<Rightarrow> string \<Rightarrow> string" where
  "replace [] old new = (if old = [] then new else [])"
| "replace (c # cs) old new =
     (if old = [] then new @ c # replace cs old new
      else if startswith (c # cs) old then new @ replace (drop (length old) (c # cs)) old new
      else c # replace cs old new)"
  by pat_completeness auto
termination
  by (relation "measure (\<lambda>(s, old, new). length s)") auto

text \<open>\<open>sub in s\<close> on strings.\<close>

fun contains :: "string \<Rightarrow> string \<Rightarrow> bool" where
  "contains [] sub = (sub = [])"
| "contains (c # cs) sub = (startswith (c # cs) sub \<or> contains cs sub)"

subsection \<open>A model of the library on a fragment\<close>

text \<open>
  Closed statements need the library itself. \<open>py_re_match\<close> models \<open>re.match\<close> on the
  regular expressions built from literal characters, escaped characters, \<open>.\<close>, the class
  \<open>[^/]\<close>, the quantifiers \<open>*\<close> and \<open>?\<close> with their lazy forms, a leading \<open>^\<close> and
  a final \<open>$\<close>. An expression with any other construct is \<open>Unmodelled\<close>;
  \<open>re_modelled\<close> tells. The expressions of ref patterns are all in the fragment, and
  every closed statement below that evaluates an expression of a path pattern stays within
  it. \<open>py_fnmatch\<close> models \<open>fnmatch.fnmatch\<close> (on POSIX, where
  \<open>normcase\<close> is the identity) on the patterns without a bracket; \<open>fn_modelled\<close>
  tells.
\<close>

datatype re_atom = Lit char | Any_Char | Not_Slash

datatype re_quant = Once | Star | Opt

datatype re_token =
    T_Atom re_atom | T_Star | T_Quest | T_Caret | T_Dollar | T_Error | T_Unmodelled

definition is_ascii_alnum :: "char \<Rightarrow> bool" where
  "is_ascii_alnum c =
     (c \<in> set ''abcdefghijklmnopqrstuvwxyzABCDEFGHIJKLMNOPQRSTUVWXYZ0123456789'')"

function (sequential) re_lex :: "string \<Rightarrow> re_token list" where
  "re_lex [] = []"
| "re_lex (c # cs) =
     (if c = bsl then
        (case cs of
           [] \<Rightarrow> [T_Error]
         | d # ds \<Rightarrow> (if is_ascii_alnum d then [T_Unmodelled] else T_Atom (Lit d) # re_lex ds))
      else if c = CHR ''['' then
        (if startswith cs ''^/]'' then T_Atom Not_Slash # re_lex (drop 3 cs) else [T_Unmodelled])
      else if c = CHR ''.'' then T_Atom Any_Char # re_lex cs
      else if c = CHR ''*'' then T_Star # re_lex cs
      else if c = CHR ''?'' then T_Quest # re_lex cs
      else if c = CHR ''^'' then T_Caret # re_lex cs
      else if c = CHR ''$'' then T_Dollar # re_lex cs
      else if c \<in> set ''+{}()|]'' then [T_Unmodelled]
      else T_Atom (Lit c) # re_lex cs)"
  by pat_completeness auto
termination
  by (relation "measure length") auto

type_synonym re_item = "re_atom \<times> re_quant"

datatype re_compiled = Compiled "re_item list" bool | Re_Error | Unmodelled

fun cons_item :: "re_item \<Rightarrow> re_compiled \<Rightarrow> re_compiled" where
  "cons_item i (Compiled is anchored) = Compiled (i # is) anchored"
| "cons_item i Re_Error = Re_Error"
| "cons_item i Unmodelled = Unmodelled"

text \<open>A quantifier takes the atom before it; a \<open>?\<close> right after a quantifier makes it
  lazy, which matches the same strings; a quantifier with nothing to repeat, or after a
  quantified atom, is an error, raised at the first such place.\<close>

fun re_items :: "re_token list \<Rightarrow> re_compiled" where
  "re_items [] = Compiled [] False"
| "re_items [T_Dollar] = Compiled [] True"
| "re_items (T_Atom a # T_Star # T_Quest # ts) = cons_item (a, Star) (re_items ts)"
| "re_items (T_Atom a # T_Star # ts) = cons_item (a, Star) (re_items ts)"
| "re_items (T_Atom a # T_Quest # T_Quest # ts) = cons_item (a, Opt) (re_items ts)"
| "re_items (T_Atom a # T_Quest # ts) = cons_item (a, Opt) (re_items ts)"
| "re_items (T_Atom a # ts) = cons_item (a, Once) (re_items ts)"
| "re_items (T_Star # ts) = Re_Error"
| "re_items (T_Quest # ts) = Re_Error"
| "re_items (T_Error # ts) = Re_Error"
| "re_items (T_Dollar # ts) = Unmodelled"
| "re_items (T_Caret # ts) = Unmodelled"
| "re_items (T_Unmodelled # ts) = Unmodelled"

definition re_compile :: "string \<Rightarrow> re_compiled" where
  "re_compile regex =
     (case re_lex regex of
        T_Caret # ts \<Rightarrow> re_items ts
      | ts \<Rightarrow> re_items ts)"

fun atom_matches :: "re_atom \<Rightarrow> char \<Rightarrow> bool" where
  "atom_matches (Lit d) c = (c = d)"
| "atom_matches Any_Char c = (c \<noteq> newline)"
| "atom_matches Not_Slash c = (c \<noteq> CHR ''/'')"

text \<open>Whether the items match at the start of the string; an anchored expression must end
  at the end of the string or before a final newline.\<close>

fun re_run :: "re_item list \<Rightarrow> bool \<Rightarrow> string \<Rightarrow> bool" where
  "re_run [] anchored s = (if anchored then s = [] \<or> s = [newline] else True)"
| "re_run ((a, Once) # is) anchored [] = False"
| "re_run ((a, Once) # is) anchored (c # cs) = (atom_matches a c \<and> re_run is anchored cs)"
| "re_run ((a, Opt) # is) anchored [] = re_run is anchored []"
| "re_run ((a, Opt) # is) anchored (c # cs) =
     ((atom_matches a c \<and> re_run is anchored cs) \<or> re_run is anchored (c # cs))"
| "re_run ((a, Star) # is) anchored [] = re_run is anchored []"
| "re_run ((a, Star) # is) anchored (c # cs) =
     ((atom_matches a c \<and> re_run ((a, Star) # is) anchored cs) \<or> re_run is anchored (c # cs))"

definition py_re_match :: "string \<Rightarrow> string \<Rightarrow> bool option" where
  "py_re_match regex s =
     (case re_compile regex of
        Compiled is anchored \<Rightarrow> Some (re_run is anchored s)
      | Re_Error \<Rightarrow> None
      | Unmodelled \<Rightarrow> None)"

definition re_modelled :: "string \<Rightarrow> bool" where
  "re_modelled regex = (re_compile regex \<noteq> Unmodelled)"

text \<open>\<open>fnmatch\<close>: \<open>*\<close> matches any run of characters, \<open>?\<close> any one character, and
  the whole name must match.\<close>

fun glob_run :: "string \<Rightarrow> string \<Rightarrow> bool" where
  "glob_run [] s = (s = [])"
| "glob_run (p # ps) [] = (p = CHR ''*'' \<and> glob_run ps [])"
| "glob_run (p # ps) (c # cs) =
     (if p = CHR ''*'' then glob_run ps (c # cs) \<or> glob_run (p # ps) cs
      else (p = CHR ''?'' \<or> p = c) \<and> glob_run ps cs)"

definition py_fnmatch :: "string \<Rightarrow> string \<Rightarrow> bool" where
  "py_fnmatch name pat = glob_run pat name"

definition fn_modelled :: "string \<Rightarrow> bool" where
  "fn_modelled pat = (CHR ''['' \<notin> set pat)"

definition py_lib :: pylib where
  "py_lib = \<lparr> re_match = py_re_match, fnmatch = py_fnmatch \<rparr>"


subsection \<open>The trigger matcher\<close>

text \<open>
  \<open>PipelineMatcher\<close> of \<open>pipelines/matcher.py\<close>. The parsed configuration is the tree
  that the parser stored: the parser copies the values of the filters as it finds them and
  nothing checks them against the schema of \<open>pipelines/validators.py\<close>, so a filter may
  hold any value. A method call on a value without that method is an \<open>AttributeError\<close>;
  iterating a value that is not iterable, and \<open>re.escape\<close> or \<open>fnmatch.fnmatch\<close> on a
  pattern that is not a string, are a \<open>TypeError\<close>. An exception leaves the matcher.
\<close>

text \<open>\<open>GitHubCommit\<close> and \<open>PushEvent\<close> of \<open>webhooks/parsers.py\<close>, with the fields
  that the matcher and the view read, typed as the data classes declare them and as GitHub
  sends them.\<close>

record github_commit =
  gc_id :: string
  gc_added :: "string list"
  gc_removed :: "string list"
  gc_modified :: "string list"

record push_event =
  pe_ref :: string
  pe_before :: string
  pe_after :: string
  pe_created :: bool
  pe_deleted :: bool
  pe_forced :: bool
  pe_commits :: "github_commit list"

definition branch :: "push_event \<Rightarrow> string" where
  "branch event =
     (if startswith (pe_ref event) ''refs/heads/''
      then drop (length ''refs/heads/'') (pe_ref event)
      else pe_ref event)"

definition tag :: "push_event \<Rightarrow> string option" where
  "tag event =
     (if startswith (pe_ref event) ''refs/tags/''
      then Some (drop (length ''refs/tags/'') (pe_ref event))
      else None)"

definition is_tag :: "push_event \<Rightarrow> bool" where
  "is_tag event = startswith (pe_ref event) ''refs/tags/''"

text \<open>\<open>changed_files\<close>: the files of all commits, as a set turned into a list. The order
  of that list is not fixed in Python; the matcher only asks whether all or any of its
  elements match, so the order does not matter as long as the matcher does not raise. (With a
  pattern that is not a string, whether \<open>any\<close> meets a match before it meets the exception
  can depend on the order.)\<close>

definition changed_files :: "push_event \<Rightarrow> string list" where
  "changed_files event =
     remdups (concat (map (\<lambda>c. gc_added c @ gc_removed c @ gc_modified c) (pe_commits event)))"

text \<open>\<open>_matches_pattern(value, pattern)\<close>; \<open>ref_regex_pattern\<close> is its local
  \<open>regex_pattern\<close>. A string equals no value of another type, and \<open>re.escape\<close> raises
  on such a value.\<close>

definition ref_regex_pattern :: "string \<Rightarrow> string" where
  "ref_regex_pattern pattern =
     (let regex_pattern = pattern;
          regex_pattern = re_escape regex_pattern;
          regex_pattern = replace regex_pattern [bsl, CHR ''*'', bsl, CHR ''*''] ''.*'';
          regex_pattern = replace regex_pattern [bsl, CHR ''*''] ''[^/]*'';
          regex_pattern = replace regex_pattern [bsl, CHR ''?''] ''.''
      in ''^'' @ regex_pattern @ ''$'')"

definition matches_pattern :: "pylib \<Rightarrow> string \<Rightarrow> yaml \<Rightarrow> py_exn + bool" where
  "matches_pattern lib val pattern =
     (if Y_Str val = pattern then Inr True
      else
        (case pattern of
           Y_Str p \<Rightarrow>
             Inr (case re_match lib (ref_regex_pattern p) val of Some b \<Rightarrow> b | None \<Rightarrow> False)
         | _ \<Rightarrow> Inl TypeError))"

text \<open>\<open>_matches_pattern_list(value, patterns)\<close>: the loop \<open>for pattern in patterns\<close> runs
  over whatever iterating \<open>patterns\<close> yields, the characters of a string included.\<close>

fun pattern_loop :: "pylib \<Rightarrow> string \<Rightarrow> yaml list \<Rightarrow> py_exn + bool" where
  "pattern_loop lib val [] = Inr False"
| "pattern_loop lib val (pattern # patterns) =
     then_do (matches_pattern lib val pattern) (\<lambda>m.
       if m then Inr True else pattern_loop lib val patterns)"

definition matches_pattern_list :: "pylib \<Rightarrow> string \<Rightarrow> yaml \<Rightarrow> py_exn + bool" where
  "matches_pattern_list lib val patterns = then_do (py_iter patterns) (pattern_loop lib val)"

text \<open>\<open>_matches_path_pattern(path, pattern)\<close>; \<open>path_regex_pattern\<close> is the local
  \<open>regex_pattern\<close> of its second branch. \<open>fnmatch.fnmatch\<close> raises on a pattern that is
  not a string.\<close>

definition path_regex_pattern :: "string \<Rightarrow> string" where
  "path_regex_pattern pattern =
     (let regex_pattern = replace pattern ''.'' [bsl, CHR ''.''];
          regex_pattern = replace regex_pattern ''**'' ''.*'';
          regex_pattern = replace regex_pattern ''*'' ''[^/]*''
      in ''^'' @ regex_pattern @ ''$'')"

definition matches_path_pattern :: "pylib \<Rightarrow> string \<Rightarrow> yaml \<Rightarrow> py_exn + bool" where
  "matches_path_pattern lib path pattern =
     (case pattern of
        Y_Str p \<Rightarrow>
          Inr (if fnmatch lib path p then True
               else if contains p ''**'' then
                 (case re_match lib (path_regex_pattern p) path of Some b \<Rightarrow> b | None \<Rightarrow> False)
               else False)
      | _ \<Rightarrow> Inl TypeError)"

text \<open>\<open>_matches_path_pattern_list(path, patterns)\<close>.\<close>

fun path_pattern_loop :: "pylib \<Rightarrow> string \<Rightarrow> yaml list \<Rightarrow> py_exn + bool" where
  "path_pattern_loop lib path [] = Inr False"
| "path_pattern_loop lib path (pattern # patterns) =
     then_do (matches_path_pattern lib path pattern) (\<lambda>m.
       if m then Inr True else path_pattern_loop lib path patterns)"

definition matches_path_pattern_list :: "pylib \<Rightarrow> string \<Rightarrow> yaml \<Rightarrow> py_exn + bool" where
  "matches_path_pattern_list lib path patterns =
     then_do (py_iter patterns) (path_pattern_loop lib path)"

text \<open>The built-ins \<open>all\<close> and \<open>any\<close> over a generator: they stop at the first element
  that decides, and at the first exception.\<close>

fun py_all :: "('a \<Rightarrow> py_exn + bool) \<Rightarrow> 'a list \<Rightarrow> py_exn + bool" where
  "py_all f [] = Inr True"
| "py_all f (x # xs) = then_do (f x) (\<lambda>b. if b then py_all f xs else Inr False)"

fun py_any :: "('a \<Rightarrow> py_exn + bool) \<Rightarrow> 'a list \<Rightarrow> py_exn + bool" where
  "py_any f [] = Inr False"
| "py_any f (x # xs) = then_do (f x) (\<lambda>b. if b then Inr True else py_any f xs)"

text \<open>\<open>_matches_branch_push(event, config)\<close>. In \<open>a and f(x)\<close> the call is made only when
  \<open>a\<close> is true.\<close>

definition matches_branch_push :: "pylib \<Rightarrow> push_event \<Rightarrow> yaml \<Rightarrow> py_exn + bool" where
  "matches_branch_push lib event config =
     then_do (py_get config ''branches'' (Y_List [])) (\<lambda>branches.
     then_do (py_get config ''branches_ignore'' (Y_List [])) (\<lambda>branches_ignore.
     then_do (if truthy branches_ignore
              then matches_pattern_list lib (branch event) branches_ignore
              else Inr False) (\<lambda>ignored.
     if ignored then Inr False
     else
     then_do (if truthy branches
              then matches_pattern_list lib (branch event) branches
              else Inr True) (\<lambda>matched.
     if \<not> matched then Inr False
     else
     then_do (py_get config ''paths'' (Y_List [])) (\<lambda>paths.
     then_do (py_get config ''paths_ignore'' (Y_List [])) (\<lambda>paths_ignore.
     if truthy paths \<or> truthy paths_ignore then
       then_do (if truthy paths_ignore
                then then_do (py_all (\<lambda>f. matches_path_pattern_list lib f paths_ignore)
                                (changed_files event))
                       (\<lambda>all_ignored. Inr (all_ignored \<and> changed_files event \<noteq> []))
                else Inr False) (\<lambda>skip.
       if skip then Inr False
       else
       then_do (if truthy paths
                then py_any (\<lambda>f. matches_path_pattern_list lib f paths) (changed_files event)
                else Inr True) (\<lambda>any_matches.
       if \<not> any_matches then Inr False else Inr True))
     else Inr True))))))"

text \<open>\<open>_matches_tag_push(event, config)\<close>.\<close>

definition matches_tag_push :: "pylib \<Rightarrow> push_event \<Rightarrow> yaml \<Rightarrow> py_exn + bool" where
  "matches_tag_push lib event config =
     (case tag event of
        None \<Rightarrow> Inr False
      | Some t \<Rightarrow>
          if t = [] then Inr False
          else
            then_do (py_get config ''tags'' (Y_List [])) (\<lambda>tags.
            then_do (py_get config ''tags_ignore'' (Y_List [])) (\<lambda>tags_ignore.
            then_do (if truthy tags_ignore
                     then matches_pattern_list lib t tags_ignore
                     else Inr False) (\<lambda>ignored.
            if ignored then Inr False
            else
            then_do (if truthy tags
                     then matches_pattern_list lib t tags
                     else Inr True) (\<lambda>matched.
            if \<not> matched then Inr False
            else if \<not> truthy tags then Inr False
            else Inr True)))))"

text \<open>\<open>__init__\<close>: \<open>self.triggers = parsed_config.get('on', {})\<close>.\<close>

definition matcher_triggers :: "yaml \<Rightarrow> py_exn + yaml" where
  "matcher_triggers parsed_config = py_get parsed_config ''on'' (Y_Map [])"

text \<open>\<open>matches_push(event)\<close>, on the matcher made from \<open>parsed_config\<close>.\<close>

definition matches_push :: "pylib \<Rightarrow> yaml \<Rightarrow> push_event \<Rightarrow> py_exn + bool" where
  "matches_push lib parsed_config event =
     then_do (matcher_triggers parsed_config) (\<lambda>triggers.
     then_do (py_get triggers ''push'' Y_Null) (\<lambda>push_config.
       if push_config = Y_Null then Inr False
       else if push_config = Y_Map [] \<or> push_config = Y_Bool True then Inr True
       else if is_tag event then matches_tag_push lib event push_config
       else matches_branch_push lib event push_config))"

text \<open>\<open>PullRequestEvent\<close>, with the derived \<open>base_branch\<close> as a field, and
  \<open>matches_pull_request(event)\<close>. \<open>x in v\<close> is membership in a list, among the keys of a
  dictionary, and the substring test on a string.\<close>

record pull_request_event =
  pr_action :: string
  pr_number :: nat
  pr_base_branch :: string

definition default_pr_types :: yaml where
  "default_pr_types = Y_List [Y_Str ''opened'', Y_Str ''synchronize'', Y_Str ''reopened'']"

fun py_in :: "string \<Rightarrow> yaml \<Rightarrow> py_exn + bool" where
  "py_in s (Y_List xs) = Inr (Y_Str s \<in> set xs)"
| "py_in s (Y_Str t) = Inr (contains t s)"
| "py_in s (Y_Map m) = Inr (Y_Str s \<in> set (map fst m))"
| "py_in s _ = Inl TypeError"

definition matches_pull_request :: "pylib \<Rightarrow> yaml \<Rightarrow> pull_request_event \<Rightarrow> py_exn + bool" where
  "matches_pull_request lib parsed_config event =
     then_do (matcher_triggers parsed_config) (\<lambda>triggers.
     then_do (py_get triggers ''pull_request'' Y_Null) (\<lambda>c.
       if c = Y_Null then Inr False
       else
         (let pr_config = (if c = Y_Map [] \<or> c = Y_Bool True
                           then Y_Map [(Y_Str ''types'', default_pr_types)]
                           else c)
          in then_do (py_get pr_config ''types'' default_pr_types) (\<lambda>types.
             then_do (py_in (pr_action event) types) (\<lambda>present.
             if \<not> present then Inr False
             else
             then_do (py_get pr_config ''branches'' (Y_List [])) (\<lambda>branches.
             then_do (py_get pr_config ''branches_ignore'' (Y_List [])) (\<lambda>branches_ignore.
             then_do (if truthy branches_ignore
                      then matches_pattern_list lib (pr_base_branch event) branches_ignore
                      else Inr False) (\<lambda>ignored.
             if ignored then Inr False
             else
             then_do (if truthy branches
                      then matches_pattern_list lib (pr_base_branch event) branches
                      else Inr True) (\<lambda>matched.
             if \<not> matched then Inr False else Inr True)))))))))"


subsection \<open>The push algorithm, as specified\<close>

text \<open>
  The specification's push algorithm, in its words, for a configuration whose filters are
  lists of pattern strings. The push entry is what \<open>on\<close> holds under \<open>push\<close>, null when
  there is none. The patterns of a filter are the strings of its list; a filter is given
  when it has one. A pattern matches a value when the matcher says so for that one pattern;
  a list of patterns matches when one of its patterns does. The tag name of a tag ref is what
  follows \<open>refs/tags/\<close>.
\<close>

definition push_entry :: "yaml \<Rightarrow> yaml" where
  "push_entry parsed_config =
     (case parsed_config of
        Y_Map m \<Rightarrow>
          (case dict_get m ''on'' (Y_Map []) of
             Y_Map t \<Rightarrow> dict_get t ''push'' Y_Null
           | _ \<Rightarrow> Y_Null)
      | _ \<Rightarrow> Y_Null)"

fun pattern_strings :: "yaml list \<Rightarrow> string list" where
  "pattern_strings [] = []"
| "pattern_strings (Y_Str s # ps) = s # pattern_strings ps"
| "pattern_strings (_ # ps) = pattern_strings ps"

definition patterns_of :: "(yaml \<times> yaml) list \<Rightarrow> string \<Rightarrow> string list" where
  "patterns_of d key =
     (case dict_get d key (Y_List []) of Y_List ps \<Rightarrow> pattern_strings ps | _ \<Rightarrow> [])"

definition ref_list_matches :: "pylib \<Rightarrow> string \<Rightarrow> string list \<Rightarrow> bool" where
  "ref_list_matches lib v patterns =
     (\<exists>p \<in> set patterns. matches_pattern lib v (Y_Str p) = Inr True)"

definition path_list_matches :: "pylib \<Rightarrow> string \<Rightarrow> string list \<Rightarrow> bool" where
  "path_list_matches lib f patterns =
     (\<exists>p \<in> set patterns. matches_path_pattern lib f (Y_Str p) = Inr True)"

definition tag_name :: "push_event \<Rightarrow> string" where
  "tag_name event = drop (length ''refs/tags/'') (pe_ref event)"

definition tag_filters_pass :: "pylib \<Rightarrow> push_event \<Rightarrow> (yaml \<times> yaml) list \<Rightarrow> bool" where
  "tag_filters_pass lib event d =
     (\<not> ref_list_matches lib (tag_name event) (patterns_of d ''tags_ignore'')
      \<and> patterns_of d ''tags'' \<noteq> []
      \<and> ref_list_matches lib (tag_name event) (patterns_of d ''tags''))"

definition branch_filters_pass :: "pylib \<Rightarrow> push_event \<Rightarrow> (yaml \<times> yaml) list \<Rightarrow> bool" where
  "branch_filters_pass lib event d =
     (\<not> ref_list_matches lib (branch event) (patterns_of d ''branches_ignore'')
      \<and> (patterns_of d ''branches'' = []
           \<or> ref_list_matches lib (branch event) (patterns_of d ''branches'')))"

definition all_files_ignored :: "pylib \<Rightarrow> push_event \<Rightarrow> (yaml \<times> yaml) list \<Rightarrow> bool" where
  "all_files_ignored lib event d =
     (patterns_of d ''paths_ignore'' \<noteq> [] \<and> changed_files event \<noteq> []
      \<and> (\<forall>f \<in> set (changed_files event). path_list_matches lib f (patterns_of d ''paths_ignore'')))"

definition no_file_in_paths :: "pylib \<Rightarrow> push_event \<Rightarrow> (yaml \<times> yaml) list \<Rightarrow> bool" where
  "no_file_in_paths lib event d =
     (patterns_of d ''paths'' \<noteq> []
      \<and> \<not> (\<exists>f \<in> set (changed_files event). path_list_matches lib f (patterns_of d ''paths'')))"

definition path_filters_pass :: "pylib \<Rightarrow> push_event \<Rightarrow> (yaml \<times> yaml) list \<Rightarrow> bool" where
  "path_filters_pass lib event d =
     (\<not> all_files_ignored lib event d \<and> \<not> no_file_in_paths lib event d)"



text \<open>
  The configurations the algorithm is specified for, with respect to an event: a mapping with
  a mapping under \<open>on\<close> (or none) whose push entry is absent or null, true, or a mapping in
  which each filter that the event consults (the tag filters for a tag ref, the branch and
  path filters otherwise) is absent, empty or otherwise false, or a list of strings.
\<close>

fun pattern_list :: "yaml \<Rightarrow> bool" where
  "pattern_list (Y_List ps) = list_all (\<lambda>p. case p of Y_Str s \<Rightarrow> True | _ \<Rightarrow> False) ps"
| "pattern_list _ = False"

definition filter_well_formed :: "(yaml \<times> yaml) list \<Rightarrow> string \<Rightarrow> bool" where
  "filter_well_formed d key =
     (\<not> truthy (dict_get d key (Y_List [])) \<or> pattern_list (dict_get d key (Y_List [])))"

definition push_filters_well_formed :: "yaml \<Rightarrow> push_event \<Rightarrow> bool" where
  "push_filters_well_formed parsed_config event =
     (case parsed_config of
        Y_Map m \<Rightarrow>
          (case dict_get m ''on'' (Y_Map []) of
             Y_Map t \<Rightarrow>
               (case dict_get t ''push'' Y_Null of
                  Y_Null \<Rightarrow> True
                | Y_Bool b \<Rightarrow> b
                | Y_Map d \<Rightarrow>
                    d = []
                    \<or> (if is_tag event
                        then filter_well_formed d ''tags'' \<and> filter_well_formed d ''tags_ignore''
                        else filter_well_formed d ''branches''
                             \<and> filter_well_formed d ''branches_ignore''
                             \<and> filter_well_formed d ''paths''
                             \<and> filter_well_formed d ''paths_ignore'')
                | _ \<Rightarrow> False)
           | _ \<Rightarrow> False)
      | _ \<Rightarrow> False)"

text \<open>A push event with one commit that modifies the given files.\<close>

definition push_of :: "string \<Rightarrow> string list \<Rightarrow> push_event" where
  "push_of ref files =
     \<lparr> pe_ref = ref, pe_before = ''000'', pe_after = ''abc'', pe_created = False,
       pe_deleted = False, pe_forced = False,
       pe_commits = [\<lparr> gc_id = ''abc'', gc_added = [], gc_removed = [], gc_modified = files \<rparr>] \<rparr>"
subsection \<open>The expression of a ref pattern\<close>

text \<open>
  What \<open>ref_regex_pattern\<close> builds, followed through its steps: \<open>esc\<close> is
  \<open>re.escape\<close> on one character, \<open>stage1\<close>, \<open>stage2\<close> and \<open>stage3\<close> are the
  string after the first, second and third \<open>replace\<close>, \<open>ref_items\<close> are the items of the
  compiled expression, \<open>item_tokens\<close> their tokens.
\<close>

definition esc :: "char \<Rightarrow> string" where
  "esc c = (if c \<in> set re_special_chars then [bsl, c] else [c])"

fun stage1 :: "string \<Rightarrow> string" where
  "stage1 [] = []"
| "stage1 [c] = esc c"
| "stage1 (c # d # ds) =
     (if c = CHR ''*'' \<and> d = CHR ''*'' then ''.*'' @ stage1 ds else esc c @ stage1 (d # ds))"

fun stage2 :: "string \<Rightarrow> string" where
  "stage2 [] = []"
| "stage2 [c] = (if c = CHR ''*'' then ''[^/]*'' else esc c)"
| "stage2 (c # d # ds) =
     (if c = CHR ''*'' \<and> d = CHR ''*'' then ''.*'' @ stage2 ds
      else if c = CHR ''*'' then ''[^/]*'' @ stage2 (d # ds)
      else esc c @ stage2 (d # ds))"

fun stage3 :: "string \<Rightarrow> string" where
  "stage3 [] = []"
| "stage3 [c] = (if c = CHR ''*'' then ''[^/]*'' else if c = CHR ''?'' then ''.'' else esc c)"
| "stage3 (c # d # ds) =
     (if c = CHR ''*'' \<and> d = CHR ''*'' then ''.*'' @ stage3 ds
      else if c = CHR ''*'' then ''[^/]*'' @ stage3 (d # ds)
      else if c = CHR ''?'' then ''.'' @ stage3 (d # ds)
      else esc c @ stage3 (d # ds))"

fun ref_items :: "string \<Rightarrow> re_item list" where
  "ref_items [] = []"
| "ref_items [c] =
     (if c = CHR ''*'' then [(Not_Slash, Star)]
      else if c = CHR ''?'' then [(Any_Char, Once)]
      else [(Lit c, Once)])"
| "ref_items (c # d # ds) =
     (if c = CHR ''*'' \<and> d = CHR ''*'' then (Any_Char, Star) # ref_items ds
      else if c = CHR ''*'' then (Not_Slash, Star) # ref_items (d # ds)
      else if c = CHR ''?'' then (Any_Char, Once) # ref_items (d # ds)
      else (Lit c, Once) # ref_items (d # ds))"

fun item_tokens :: "re_item list \<Rightarrow> re_token list" where
  "item_tokens [] = [T_Dollar]"
| "item_tokens ((a, q) # is) =
     (if q = Star then T_Atom a # T_Star # item_tokens is else T_Atom a # item_tokens is)"

text \<open>The wildcards of ref matching in the specification's words: \<open>**\<close> stands for any
  run of characters, a single \<open>*\<close> for any run without \<open>/\<close>, \<open>?\<close> for one
  character and every other character for itself. Stars pair up from the left.\<close>

inductive ref_glob :: "string \<Rightarrow> string \<Rightarrow> bool" where
  rg_nil: "ref_glob [] []"
| rg_any: "ref_glob ps s \<Longrightarrow> ref_glob (CHR ''*'' # CHR ''*'' # ps) (r @ s)"
| rg_star: "ref_glob ps s \<Longrightarrow> CHR ''/'' \<notin> set r \<Longrightarrow> \<not> startswith ps ''*'' \<Longrightarrow>
            ref_glob (CHR ''*'' # ps) (r @ s)"
| rg_quest: "ref_glob ps s \<Longrightarrow> ref_glob (CHR ''?'' # ps) (c # s)"
| rg_lit: "p \<noteq> CHR ''*'' \<Longrightarrow> p \<noteq> CHR ''?'' \<Longrightarrow> ref_glob ps s \<Longrightarrow> ref_glob (p # ps) (p # s)"

subsection \<open>The webhook view\<close>

text \<open>
  \<open>GitHubWebhookView._process_event\<close> and the two functions that create executions, of
  \<open>webhooks/views.py\<close>. The state is the execution table and the column
  \<open>last_execution_at\<close> of the pipelines (latest entry first). The \<open>trigger_info\<close>
  dictionary does not influence what is created and is left out. \<open>next_id\<close> stands for
  \<open>uuid4\<close>. Every statement of the view is committed as it runs, so an exception leaves
  the view with the state reached so far: a result is the state together with either the
  exception or the value returned.
\<close>

record pipeline_config =
  cf_id :: nat
  cf_version :: nat
  cf_is_valid :: bool
  cf_parsed_config :: yaml

record pipeline =
  pl_id :: nat
  pl_tenant :: nat
  pl_name :: string
  pl_configs :: "pipeline_config list"

record webhook_state =
  ws_executions :: execution_table
  ws_last_execution_at :: "(nat \<times> nat) list"

datatype parsed_event = Push push_event | Pull_Request pull_request_event | Ping_Event

text \<open>\<open>Pipeline.get_latest_config\<close>:
  \<open>self.configs.filter(is_valid=True).order_by('-version').first()\<close>.\<close>

definition get_latest_config :: "pipeline \<Rightarrow> pipeline_config option" where
  "get_latest_config p =
     (case rev (sort_key cf_version (filter cf_is_valid (pl_configs p))) of
        [] \<Rightarrow> None
      | c # _ \<Rightarrow> Some c)"

definition new_execution ::
  "(execution_table \<Rightarrow> nat) \<Rightarrow> execution_table \<Rightarrow> pipeline \<Rightarrow> pipeline_config \<Rightarrow> string \<Rightarrow> execution" where
  "new_execution next_id tbl p config trigger_type =
     \<lparr> ex_id = next_id tbl, ex_tenant = pl_tenant p, ex_pipeline = pl_id p,
       ex_pipeline_config = Some (cf_id config),
       ex_number = or_zero (first_number_desc (filter_pipeline tbl (pl_id p))) + 1,
       ex_trigger_type = trigger_type, ex_status = ''pending'' \<rparr>"

text \<open>\<open>_create_execution_for_push\<close>.\<close>

definition create_execution_for_push ::
  "(execution_table \<Rightarrow> nat) \<Rightarrow> nat \<Rightarrow> webhook_state \<Rightarrow> pipeline \<Rightarrow> pipeline_config \<Rightarrow> push_event
     \<Rightarrow> webhook_state \<times> (py_exn + execution option)" where
  "create_execution_for_push next_id now st p config event =
     (if pe_deleted event then (st, Inr None)
      else
        (let e = new_execution next_id (ws_executions st) p config ''push''
         in (case objects_create (ws_executions st) e of
               Inl x \<Rightarrow> (st, Inl x)
             | Inr tbl \<Rightarrow>
                 (\<lparr> ws_executions = tbl,
                    ws_last_execution_at = (pl_id p, now) # ws_last_execution_at st \<rparr>,
                  Inr (Some e)))))"

text \<open>\<open>_create_execution_for_pr\<close>.\<close>

definition create_execution_for_pr ::
  "(execution_table \<Rightarrow> nat) \<Rightarrow> nat \<Rightarrow> webhook_state \<Rightarrow> pipeline \<Rightarrow> pipeline_config
     \<Rightarrow> pull_request_event \<Rightarrow> webhook_state \<times> (py_exn + execution option)" where
  "create_execution_for_pr next_id now st p config event =
     (let e = new_execution next_id (ws_executions st) p config ''pull_request''
      in (case objects_create (ws_executions st) e of
            Inl x \<Rightarrow> (st, Inl x)
          | Inr tbl \<Rightarrow>
              (\<lparr> ws_executions = tbl,
                 ws_last_execution_at = (pl_id p, now) # ws_last_execution_at st \<rparr>,
               Inr (Some e))))"

text \<open>The body of the loop of \<open>_process_event\<close> for one pipeline: \<open>None\<close> for
  \<open>continue\<close>, the result of the creating function otherwise. The matcher is made before the
  event is looked at.\<close>

definition process_pipeline ::
  "pylib \<Rightarrow> (execution_table \<Rightarrow> nat) \<Rightarrow> nat \<Rightarrow> string \<Rightarrow> parsed_event \<Rightarrow> webhook_state \<Rightarrow> pipeline
     \<Rightarrow> webhook_state \<times> (py_exn + execution option)" where
  "process_pipeline lib next_id now event_type parsed_event st p =
     (case get_latest_config p of
        None \<Rightarrow> (st, Inr None)
      | Some config \<Rightarrow>
          if \<not> cf_is_valid config then (st, Inr None)
          else
            (case matcher_triggers (cf_parsed_config config) of
               Inl x \<Rightarrow> (st, Inl x)
             | Inr triggers \<Rightarrow>
                 (case parsed_event of
                    Push event \<Rightarrow>
                      if event_type = ''push'' then
                        (case matches_push lib (cf_parsed_config config) event of
                           Inl x \<Rightarrow> (st, Inl x)
                         | Inr matches \<Rightarrow>
                             if \<not> matches then (st, Inr None)
                             else create_execution_for_push next_id now st p config event)
                      else (st, Inr None)
                  | Pull_Request event \<Rightarrow>
                      if event_type = ''pull_request'' then
                        (case matches_pull_request lib (cf_parsed_config config) event of
                           Inl x \<Rightarrow> (st, Inl x)
                         | Inr matches \<Rightarrow>
                             if \<not> matches then (st, Inr None)
                             else create_execution_for_pr next_id now st p config event)
                      else (st, Inr None)
                  | Ping_Event \<Rightarrow> (st, Inr None))))"

text \<open>\<open>_process_event\<close>: the state after the loop and \<open>triggered_executions\<close>, or the
  state at the exception and the exception.\<close>

fun process_event ::
  "pylib \<Rightarrow> (execution_table \<Rightarrow> nat) \<Rightarrow> nat \<Rightarrow> string \<Rightarrow> parsed_event \<Rightarrow> pipeline list
     \<Rightarrow> webhook_state \<Rightarrow> webhook_state \<times> (py_exn + execution list)" where
  "process_event lib next_id now event_type parsed_event [] st = (st, Inr [])"
| "process_event lib next_id now event_type parsed_event (p # pipelines) st =
     (case process_pipeline lib next_id now event_type parsed_event st p of
        (st', Inl x) \<Rightarrow> (st', Inl x)
      | (st', Inr execution) \<Rightarrow>
          (case process_event lib next_id now event_type parsed_event pipelines st' of
             (st'', Inl x) \<Rightarrow> (st'', Inl x)
           | (st'', Inr triggered) \<Rightarrow>
               (st'', Inr (case execution of None \<Rightarrow> triggered | Some e \<Rightarrow> e # triggered))))"

text \<open>Whether the matcher returns, rather than raises, for the push event on the
  configuration that the loop reads for a pipeline.\<close>

definition push_matcher_returns :: "pylib \<Rightarrow> push_event \<Rightarrow> pipeline \<Rightarrow> bool" where
  "push_matcher_returns lib event p =
     (case get_latest_config p of
        None \<Rightarrow> True
      | Some config \<Rightarrow>
          (case matches_push lib (cf_parsed_config config) event of
             Inl x \<Rightarrow> False
           | Inr matches \<Rightarrow> True))"

subsection \<open>The YAML parser\<close>

text \<open>
  \<open>PipelineParser\<close> of \<open>pipelines/parser.py\<close>. \<open>yaml.safe_load\<close> belongs to the PyYAML
  library: the parser is modelled from its outcome on, which is either a \<open>YAMLError\<close> with
  its text or the loaded value. The list \<open>self.errors\<close> is passed along and returned.
  The parsed configuration is a tree of values as well.
\<close>

datatype load_result = YAML_Error string | Loaded yaml

text \<open>A string between single quotes, for the messages.\<close>

definition quoted :: "string \<Rightarrow> string" where
  "quoted s = CHR 0x27 # s @ [CHR 0x27]"

text \<open>\<open>x.items()\<close>: only a dictionary has it.\<close>

fun py_items :: "yaml \<Rightarrow> py_exn + (yaml \<times> yaml) list" where
  "py_items (Y_Map m) = Inr m"
| "py_items _ = Inl AttributeError"

text \<open>Lists and dictionaries are not hashable.\<close>

fun hashable :: "yaml \<Rightarrow> bool" where
  "hashable (Y_List xs) = False"
| "hashable (Y_Map m) = False"
| "hashable _ = True"

text \<open>\<open>str(n)\<close> for a natural number and an integer, and \<open>str(v)\<close> for a scalar, as
  f-strings format them. The parser formats strings and hashable values only; the two last
  equations of \<open>py_str\<close> are never reached.\<close>

fun digits :: "nat \<Rightarrow> nat \<Rightarrow> string" where
  "digits 0 n = []"
| "digits (Suc fuel) n =
     (if n < 10 then [char_of (48 + n)]
      else digits fuel (n div 10) @ [char_of (48 + n mod 10)])"

definition str_nat :: "nat \<Rightarrow> string" where
  "str_nat n = digits (Suc n) n"

definition str_int :: "int \<Rightarrow> string" where
  "str_int i = (if i < 0 then CHR ''-'' # str_nat (nat (- i)) else str_nat (nat i))"

fun py_str :: "yaml \<Rightarrow> string" where
  "py_str Y_Null = ''None''"
| "py_str (Y_Bool b) = (if b then ''True'' else ''False'')"
| "py_str (Y_Int i) = str_int i"
| "py_str (Y_Str s) = s"
| "py_str (Y_List xs) = ''[...]''"
| "py_str (Y_Map m) = ''{...}''"

text \<open>\<open>_normalize_runs_on\<close> and \<open>_normalize_list\<close>.\<close>

fun normalize_runs_on :: "yaml \<Rightarrow> yaml" where
  "normalize_runs_on (Y_Str s) = Y_List [Y_Str s]"
| "normalize_runs_on (Y_List xs) = Y_List xs"
| "normalize_runs_on _ = Y_List []"

fun normalize_list :: "yaml \<Rightarrow> yaml" where
  "normalize_list (Y_Str s) = Y_List [Y_Str s]"
| "normalize_list (Y_List xs) = Y_List xs"
| "normalize_list _ = Y_List []"

text \<open>\<open>_validate_job_key\<close>: \<open>re.match\<close> of \<open>^[a-zA-Z_][a-zA-Z0-9_-]*$\<close>, where
  \<open>$\<close> also matches before a final newline; a key that is not a string is a
  \<open>TypeError\<close> of \<open>re.match\<close>.\<close>

definition key_first_char :: "char \<Rightarrow> bool" where
  "key_first_char c = (c \<in> set ''abcdefghijklmnopqrstuvwxyzABCDEFGHIJKLMNOPQRSTUVWXYZ_'')"

definition key_char :: "char \<Rightarrow> bool" where
  "key_char c = (key_first_char c \<or> c \<in> set ''0123456789-'')"

definition job_key_matches :: "string \<Rightarrow> bool" where
  "job_key_matches key =
     (case key of
        [] \<Rightarrow> False
      | c # cs \<Rightarrow>
          key_first_char c
          \<and> list_all key_char (if cs \<noteq> [] \<and> last cs = newline then butlast cs else cs))"

fun validate_job_key :: "yaml \<Rightarrow> py_exn + bool" where
  "validate_job_key (Y_Str key) = Inr (job_key_matches key)"
| "validate_job_key _ = Inl TypeError"

text \<open>\<open>_validate_cron\<close>: \<open>expression.split()\<close> has 5 or 6 parts; only a string has
  \<open>split\<close>. Splitting is at runs of white space.\<close>

definition is_space :: "char \<Rightarrow> bool" where
  "is_space c = ((of_char c :: nat) \<in> set [9, 10, 11, 12, 13, 28, 29, 30, 31, 32, 133, 160])"

fun split_ws :: "string \<Rightarrow> string \<Rightarrow> string list" where
  "split_ws word [] = (if word = [] then [] else [word])"
| "split_ws word (c # cs) =
     (if is_space c then (if word = [] then split_ws [] cs else word # split_ws [] cs)
      else split_ws (word @ [c]) cs)"

fun validate_cron :: "yaml \<Rightarrow> py_exn + bool" where
  "validate_cron (Y_Str expression) =
     Inr (length (split_ws [] expression) = 5 \<or> length (split_ws [] expression) = 6)"
| "validate_cron _ = Inl AttributeError"

text \<open>\<open>_parse_push_trigger\<close> and \<open>_parse_pr_trigger\<close>.\<close>

fun parse_push_trigger :: "yaml \<Rightarrow> py_exn + yaml" where
  "parse_push_trigger Y_Null = Inr (Y_Map [])"
| "parse_push_trigger (Y_Map m) =
     Inr (Y_Map
       [(Y_Str ''branches'', dict_get m ''branches'' (Y_List [])),
        (Y_Str ''branches_ignore'', dict_get m ''branches-ignore'' (Y_List [])),
        (Y_Str ''paths'', dict_get m ''paths'' (Y_List [])),
        (Y_Str ''paths_ignore'', dict_get m ''paths-ignore'' (Y_List [])),
        (Y_Str ''tags'', dict_get m ''tags'' (Y_List [])),
        (Y_Str ''tags_ignore'', dict_get m ''tags-ignore'' (Y_List []))])"
| "parse_push_trigger _ = Inl AttributeError"

fun parse_pr_trigger :: "yaml \<Rightarrow> py_exn + yaml" where
  "parse_pr_trigger Y_Null = Inr (Y_Map [])"
| "parse_pr_trigger (Y_Map m) =
     Inr (Y_Map
       [(Y_Str ''branches'', dict_get m ''branches'' (Y_List [])),
        (Y_Str ''branches_ignore'', dict_get m ''branches-ignore'' (Y_List [])),
        (Y_Str ''paths'', dict_get m ''paths'' (Y_List [])),
        (Y_Str ''paths_ignore'', dict_get m ''paths-ignore'' (Y_List [])),
        (Y_Str ''types'',
           dict_get m ''types''
             (Y_List [Y_Str ''opened'', Y_Str ''synchronize'', Y_Str ''reopened'']))])"
| "parse_pr_trigger _ = Inl AttributeError"

text \<open>\<open>_parse_schedule_trigger\<close>: the loop over the items, with the schedules and the
  errors so far.\<close>

fun schedule_items :: "yaml list \<Rightarrow> yaml list \<Rightarrow> string list \<Rightarrow> py_exn + (yaml list \<times> string list)" where
  "schedule_items [] schedules errors = Inr (schedules, errors)"
| "schedule_items (item # items) schedules errors =
     (case item of
        Y_Map m \<Rightarrow>
          (case map_of m (Y_Str ''cron'') of
             None \<Rightarrow> schedule_items items schedules errors
           | Some cron \<Rightarrow>
               then_do (validate_cron cron) (\<lambda>ok.
                 if ok then schedule_items items (schedules @ [Y_Map [(Y_Str ''cron'', cron)]]) errors
                 else schedule_items items schedules
                        (errors @ [''Invalid cron expression: '' @ py_str cron])))
      | _ \<Rightarrow> schedule_items items schedules errors)"

definition parse_schedule_trigger :: "yaml \<Rightarrow> string list \<Rightarrow> py_exn + (yaml \<times> string list)" where
  "parse_schedule_trigger config errors =
     then_do (py_iter config) (\<lambda>items.
       then_do (schedule_items items [] errors) (\<lambda>(schedules, errors').
         Inr (Y_List schedules, errors')))"

text \<open>\<open>_parse_workflow_dispatch\<close>.\<close>

fun dispatch_inputs :: "(yaml \<times> yaml) list \<Rightarrow> py_exn + (yaml \<times> yaml) list" where
  "dispatch_inputs [] = Inr []"
| "dispatch_inputs ((name, input_config) # rest) =
     (case input_config of
        Y_Map m \<Rightarrow>
          then_do (dispatch_inputs rest) (\<lambda>inputs.
            Inr ((name, Y_Map
                   [(Y_Str ''description'', dict_get m ''description'' (Y_Str [])),
                    (Y_Str ''required'', dict_get m ''required'' (Y_Bool False)),
                    (Y_Str ''default'', dict_get m ''default'' Y_Null),
                    (Y_Str ''type'', dict_get m ''type'' (Y_Str ''string'')),
                    (Y_Str ''options'', dict_get m ''options'' (Y_List []))]) # inputs))
      | _ \<Rightarrow> Inl AttributeError)"

definition parse_workflow_dispatch :: "yaml \<Rightarrow> py_exn + yaml" where
  "parse_workflow_dispatch config =
     (if config = Y_Null then Inr (Y_Map [(Y_Str ''inputs'', Y_Map [])])
      else
        then_do (py_get config ''inputs'' (Y_Map [])) (\<lambda>inputs_config.
          then_do (py_items inputs_config) (\<lambda>items.
            then_do (dispatch_inputs items) (\<lambda>inputs.
              Inr (Y_Map [(Y_Str ''inputs'', Y_Map inputs)])))))"

text \<open>\<open>==\<close> on hashable values: a boolean equals the integer 0 or 1.\<close>

fun py_eq :: "yaml \<Rightarrow> yaml \<Rightarrow> bool" where
  "py_eq (Y_Bool b) (Y_Int i) = (i = (if b then 1 else 0))"
| "py_eq (Y_Int i) (Y_Bool b) = (i = (if b then 1 else 0))"
| "py_eq x y = (x = y)"

text \<open>\<open>_parse_triggers\<close>. A dictionary built from a list needs hashable elements, and
  keeps the first of equal keys.\<close>

fun trigger_names :: "yaml list \<Rightarrow> py_exn + (yaml \<times> yaml) list" where
  "trigger_names [] = Inr []"
| "trigger_names (trigger # rest) =
     (if \<not> hashable trigger then Inl TypeError
      else then_do (trigger_names rest) (\<lambda>d.
             Inr ((trigger, Y_Map []) # filter (\<lambda>kv. \<not> py_eq (fst kv) trigger) d)))"

definition parse_triggers :: "yaml \<Rightarrow> string list \<Rightarrow> py_exn + (yaml \<times> string list)" where
  "parse_triggers on_config errors =
     (case on_config of
        Y_Str s \<Rightarrow> Inr (Y_Map [(Y_Str s, Y_Map [])], errors)
      | Y_List xs \<Rightarrow> then_do (trigger_names xs) (\<lambda>d. Inr (Y_Map d, errors))
      | Y_Map m \<Rightarrow>
          then_do (case map_of m (Y_Str ''push'') of
                     None \<Rightarrow> Inr []
                   | Some c \<Rightarrow> then_do (parse_push_trigger c) (\<lambda>t. Inr [(Y_Str ''push'', t)]))
            (\<lambda>push.
          then_do (case map_of m (Y_Str ''pull_request'') of
                     None \<Rightarrow> Inr []
                   | Some c \<Rightarrow> then_do (parse_pr_trigger c) (\<lambda>t. Inr [(Y_Str ''pull_request'', t)]))
            (\<lambda>pull_request.
          then_do (case map_of m (Y_Str ''schedule'') of
                     None \<Rightarrow> Inr ([], errors)
                   | Some c \<Rightarrow> then_do (parse_schedule_trigger c errors) (\<lambda>(t, errors').
                                Inr ([(Y_Str ''schedule'', t)], errors')))
            (\<lambda>(schedule, errors').
          then_do (case map_of m (Y_Str ''workflow_dispatch'') of
                     None \<Rightarrow> Inr []
                   | Some c \<Rightarrow> then_do (parse_workflow_dispatch c) (\<lambda>t.
                                Inr [(Y_Str ''workflow_dispatch'', t)]))
            (\<lambda>workflow_dispatch.
          Inr (Y_Map (push @ pull_request @ schedule @ workflow_dispatch), errors')))))
      | _ \<Rightarrow> Inr (Y_Map [], errors))"

text \<open>\<open>_parse_concurrency\<close>.\<close>

fun parse_concurrency :: "yaml \<Rightarrow> yaml" where
  "parse_concurrency (Y_Str s) =
     Y_Map [(Y_Str ''group'', Y_Str s), (Y_Str ''cancel_in_progress'', Y_Bool False)]"
| "parse_concurrency (Y_Map m) =
     Y_Map [(Y_Str ''group'', dict_get m ''group'' (Y_Str [])),
            (Y_Str ''cancel_in_progress'', dict_get m ''cancel-in-progress'' (Y_Bool False))]"
| "parse_concurrency _ = Y_Map []"

text \<open>\<open>_parse_container\<close> and \<open>_parse_services\<close>.\<close>

definition container_fields :: "(yaml \<times> yaml) list \<Rightarrow> yaml" where
  "container_fields m =
     Y_Map [(Y_Str ''image'', dict_get m ''image'' (Y_Str [])),
            (Y_Str ''credentials'', dict_get m ''credentials'' (Y_Map [])),
            (Y_Str ''env'', dict_get m ''env'' (Y_Map [])),
            (Y_Str ''ports'', dict_get m ''ports'' (Y_List [])),
            (Y_Str ''volumes'', dict_get m ''volumes'' (Y_List [])),
            (Y_Str ''options'', dict_get m ''options'' (Y_Str []))]"

fun parse_container :: "yaml \<Rightarrow> py_exn + yaml" where
  "parse_container Y_Null = Inr (Y_Map [])"
| "parse_container (Y_Str s) = Inr (Y_Map [(Y_Str ''image'', Y_Str s)])"
| "parse_container (Y_Map m) = Inr (container_fields m)"
| "parse_container _ = Inl AttributeError"

fun services_items :: "(yaml \<times> yaml) list \<Rightarrow> py_exn + (yaml \<times> yaml) list" where
  "services_items [] = Inr []"
| "services_items ((name, config) # rest) =
     (case config of
        Y_Map m \<Rightarrow> then_do (services_items rest) (\<lambda>services. Inr ((name, container_fields m) # services))
      | _ \<Rightarrow> Inl AttributeError)"

definition parse_services :: "yaml \<Rightarrow> py_exn + yaml" where
  "parse_services services_config =
     then_do (py_items services_config) (\<lambda>items.
       then_do (services_items items) (\<lambda>services. Inr (Y_Map services)))"

text \<open>\<open>_parse_strategy\<close>.\<close>

definition parse_strategy :: "yaml \<Rightarrow> py_exn + yaml" where
  "parse_strategy config =
     (if \<not> truthy config then Inr (Y_Map [])
      else
        then_do (py_get config ''fail-fast'' (Y_Bool True)) (\<lambda>fail_fast.
        then_do (py_get config ''max-parallel'' Y_Null) (\<lambda>max_parallel.
        then_do (py_get config ''matrix'' (Y_Map [])) (\<lambda>matrix.
        then_do
          (if truthy matrix then
             then_do (py_get matrix ''include'' (Y_List [])) (\<lambda>include.
             then_do (py_get matrix ''exclude'' (Y_List [])) (\<lambda>exclude.
             then_do (py_items matrix) (\<lambda>items.
               Inr (Y_Map
                 [(Y_Str ''include'', include),
                  (Y_Str ''exclude'', exclude),
                  (Y_Str ''variables'',
                     Y_Map (filter (\<lambda>kv. fst kv \<noteq> Y_Str ''include'' \<and> fst kv \<noteq> Y_Str ''exclude'')
                              items))]))))
           else Inr (Y_Map []))
          (\<lambda>parsed_matrix.
             Inr (Y_Map [(Y_Str ''fail_fast'', fail_fast),
                         (Y_Str ''max_parallel'', max_parallel),
                         (Y_Str ''matrix'', parsed_matrix)]))))))"

text \<open>\<open>_parse_step\<close> and \<open>_parse_steps\<close>.\<close>

definition parse_step :: "nat \<Rightarrow> yaml \<Rightarrow> string list \<Rightarrow> py_exn + (yaml \<times> string list)" where
  "parse_step index config errors =
     (case config of
        Y_Map m \<Rightarrow>
          (let run = dict_get m ''run'' (Y_Str []);
               uses = dict_get m ''uses'' (Y_Str []);
               step =
                 [(Y_Str ''name'', dict_get m ''name'' (Y_Str (''Step '' @ str_nat (index + 1)))),
                  (Y_Str ''id'', dict_get m ''id'' (Y_Str [])),
                  (Y_Str ''run'', run),
                  (Y_Str ''uses'', uses),
                  (Y_Str ''with'', dict_get m ''with'' (Y_Map [])),
                  (Y_Str ''env'', dict_get m ''env'' (Y_Map [])),
                  (Y_Str ''working_directory'', dict_get m ''working-directory'' (Y_Str [])),
                  (Y_Str ''shell'', dict_get m ''shell'' (Y_Str ''bash'')),
                  (Y_Str ''condition'', dict_get m ''if'' (Y_Str [])),
                  (Y_Str ''continue_on_error'', dict_get m ''continue-on-error'' (Y_Bool False)),
                  (Y_Str ''timeout_minutes'', dict_get m ''timeout-minutes'' (Y_Int 60))];
               errors = (if \<not> truthy run \<and> \<not> truthy uses
                         then errors @ [''Step '' @ str_nat (index + 1)
                                        @ '' must have either '' @ quoted ''run''
                                        @ '' or '' @ quoted ''uses'']
                         else errors);
               errors = (if truthy run \<and> truthy uses
                         then errors @ [''Step '' @ str_nat (index + 1)
                                        @ '' cannot have both '' @ quoted ''run''
                                        @ '' and '' @ quoted ''uses'']
                         else errors)
           in Inr (Y_Map (step @ [(Y_Str ''type'', Y_Str (if truthy uses then ''uses'' else ''run''))]),
                   errors))
      | _ \<Rightarrow> Inl AttributeError)"

fun steps_loop :: "nat \<Rightarrow> yaml list \<Rightarrow> yaml list \<Rightarrow> string list \<Rightarrow> py_exn + (yaml list \<times> string list)" where
  "steps_loop i [] steps errors = Inr (steps, errors)"
| "steps_loop i (step_config # rest) steps errors =
     then_do (parse_step i step_config errors) (\<lambda>(step, errors').
       if truthy step then steps_loop (i + 1) rest (steps @ [step]) errors'
       else steps_loop (i + 1) rest steps errors')"

definition parse_steps :: "yaml \<Rightarrow> string list \<Rightarrow> py_exn + (yaml \<times> string list)" where
  "parse_steps steps_config errors =
     then_do (py_iter steps_config) (\<lambda>items.
       then_do (steps_loop 0 items [] errors) (\<lambda>(steps, errors').
         Inr (Y_List steps, errors')))"

text \<open>\<open>_parse_job\<close>: the entries of the dictionary are evaluated in order, so the first
  \<open>config.get\<close> already raises when \<open>config\<close> is not a dictionary.\<close>

definition parse_job :: "string \<Rightarrow> yaml \<Rightarrow> string list \<Rightarrow> py_exn + (yaml \<times> string list)" where
  "parse_job job_key config errors =
     then_do (py_get config ''name'' (Y_Str job_key)) (\<lambda>name.
     then_do (py_get config ''runs-on'' (Y_List [])) (\<lambda>runs_on_raw.
     then_do (py_get config ''needs'' (Y_List [])) (\<lambda>needs_raw.
     then_do (py_get config ''if'' (Y_Str [])) (\<lambda>condition.
     then_do (py_get config ''container'' Y_Null) (\<lambda>container_raw.
     then_do (parse_container container_raw) (\<lambda>container.
     then_do (py_get config ''services'' (Y_Map [])) (\<lambda>services_raw.
     then_do (parse_services services_raw) (\<lambda>services.
     then_do (py_get config ''env'' (Y_Map [])) (\<lambda>env.
     then_do (py_get config ''steps'' (Y_List [])) (\<lambda>steps_raw.
     then_do (parse_steps steps_raw errors) (\<lambda>(steps, errors').
     then_do (py_get config ''strategy'' (Y_Map [])) (\<lambda>strategy_raw.
     then_do (parse_strategy strategy_raw) (\<lambda>strategy.
     then_do (py_get config ''timeout-minutes'' (Y_Int 60)) (\<lambda>timeout_minutes.
     then_do (py_get config ''outputs'' (Y_Map [])) (\<lambda>outputs.
       (let runs_on = normalize_runs_on runs_on_raw;
            job = Y_Map
              [(Y_Str ''name'', name),
               (Y_Str ''runs_on'', runs_on),
               (Y_Str ''needs'', normalize_list needs_raw),
               (Y_Str ''condition'', condition),
               (Y_Str ''container'', container),
               (Y_Str ''services'', services),
               (Y_Str ''env'', env),
               (Y_Str ''steps'', steps),
               (Y_Str ''strategy'', strategy),
               (Y_Str ''timeout_minutes'', timeout_minutes),
               (Y_Str ''outputs'', outputs)];
            errors1 = (if \<not> truthy runs_on
                       then errors' @ [''Job '' @ quoted job_key @ '' must specify '' @ quoted ''runs-on'']
                       else errors');
            errors2 = (if \<not> truthy steps
                       then errors1 @ [''Job '' @ quoted job_key @ '' must have at least one step'']
                       else errors1)
        in Inr (job, errors2)))))))))))))))))"

text \<open>\<open>_check_circular_dependencies\<close>. The nested function \<open>has_cycle\<close> recurses
  along the \<open>needs\<close> entries; Python bounds the depth of recursion and raises
  \<open>RecursionError\<close> beyond it. The first argument is the depth that is left, the state
  is the pair of the sets \<open>visited\<close> and \<open>rec_stack\<close>.\<close>

definition needs_of :: "(yaml \<times> yaml) list \<Rightarrow> yaml \<Rightarrow> yaml list" where
  "needs_of jobs job_key =
     (case map_of jobs job_key of
        Some (Y_Map job) \<Rightarrow> (case dict_get job ''needs'' (Y_List []) of Y_List xs \<Rightarrow> xs | _ \<Rightarrow> [])
      | _ \<Rightarrow> [])"

fun has_cycle ::
    "nat \<Rightarrow> (yaml \<times> yaml) list \<Rightarrow> yaml \<Rightarrow> yaml list \<times> yaml list
       \<Rightarrow> py_exn + (bool \<times> yaml list \<times> yaml list)"
  and deps_loop ::
    "nat \<Rightarrow> (yaml \<times> yaml) list \<Rightarrow> yaml list \<Rightarrow> yaml list \<times> yaml list
       \<Rightarrow> py_exn + (bool \<times> yaml list \<times> yaml list)" where
  "has_cycle 0 jobs job_key st = Inl RecursionError"
| "has_cycle (Suc depth) jobs job_key st =
     (case deps_loop depth jobs (needs_of jobs job_key) (job_key # fst st, job_key # snd st) of
        Inl x \<Rightarrow> Inl x
      | Inr (found, st') \<Rightarrow>
          if found then Inr (True, st')
          else Inr (False, fst st', removeAll job_key (snd st')))"
| "deps_loop depth jobs [] st = Inr (False, st)"
| "deps_loop depth jobs (dep # deps) st =
     (if dep \<notin> set (fst st) then
        (case has_cycle depth jobs dep st of
           Inl x \<Rightarrow> Inl x
         | Inr (found, st') \<Rightarrow> if found then Inr (True, st') else deps_loop depth jobs deps st')
      else if dep \<in> set (snd st) then Inr (True, st)
      else deps_loop depth jobs deps st)"

fun cycle_loop ::
  "nat \<Rightarrow> (yaml \<times> yaml) list \<Rightarrow> yaml list \<Rightarrow> yaml list \<times> yaml list \<Rightarrow> string list
     \<Rightarrow> py_exn + string list" where
  "cycle_loop limit jobs [] st errors = Inr errors"
| "cycle_loop limit jobs (job_key # keys) st errors =
     (if job_key \<notin> set (fst st) then
        (case has_cycle limit jobs job_key st of
           Inl x \<Rightarrow> Inl x
         | Inr (found, st') \<Rightarrow>
             if found then Inr (errors @ [''Circular dependency detected in job graph''])
             else cycle_loop limit jobs keys st' errors)
      else cycle_loop limit jobs keys st errors)"

definition check_circular_dependencies ::
  "nat \<Rightarrow> (yaml \<times> yaml) list \<Rightarrow> string list \<Rightarrow> py_exn + string list" where
  "check_circular_dependencies limit jobs errors = cycle_loop limit jobs (map fst jobs) ([], []) errors"

text \<open>\<open>_validate_job_dependencies\<close>: membership in the set of job keys needs a hashable
  value.\<close>

fun needed_loop :: "string \<Rightarrow> yaml list \<Rightarrow> yaml list \<Rightarrow> string list \<Rightarrow> py_exn + string list" where
  "needed_loop job_key job_keys [] errors = Inr errors"
| "needed_loop job_key job_keys (needed_job # rest) errors =
     (if \<not> hashable needed_job then Inl TypeError
      else if needed_job \<notin> set job_keys
      then needed_loop job_key job_keys rest
             (errors @ [''Job '' @ quoted job_key @ '' depends on non-existent job ''
                        @ quoted (py_str needed_job)])
      else needed_loop job_key job_keys rest errors)"

fun dependencies_loop ::
  "(yaml \<times> yaml) list \<Rightarrow> (yaml \<times> yaml) list \<Rightarrow> string list \<Rightarrow> py_exn + string list" where
  "dependencies_loop jobs [] errors = Inr errors"
| "dependencies_loop jobs ((job_key, job) # rest) errors =
     (case needed_loop (py_str job_key) (map fst jobs) (needs_of jobs job_key) errors of
        Inl x \<Rightarrow> Inl x
      | Inr errors' \<Rightarrow> dependencies_loop jobs rest errors')"

definition validate_job_dependencies ::
  "nat \<Rightarrow> (yaml \<times> yaml) list \<Rightarrow> string list \<Rightarrow> py_exn + string list" where
  "validate_job_dependencies limit jobs errors =
     then_do (dependencies_loop jobs jobs errors) (\<lambda>errors'.
       check_circular_dependencies limit jobs errors')"

text \<open>\<open>_parse_jobs\<close>.\<close>

fun jobs_loop ::
  "(yaml \<times> yaml) list \<Rightarrow> (yaml \<times> yaml) list \<Rightarrow> string list
     \<Rightarrow> py_exn + ((yaml \<times> yaml) list \<times> string list)" where
  "jobs_loop [] jobs errors = Inr (jobs, errors)"
| "jobs_loop ((job_key, job_config) # rest) jobs errors =
     (case validate_job_key job_key of
        Inl x \<Rightarrow> Inl x
      | Inr ok \<Rightarrow>
          if \<not> ok then jobs_loop rest jobs (errors @ [''Invalid job key: '' @ py_str job_key])
          else
            (case parse_job (py_str job_key) job_config errors of
               Inl x \<Rightarrow> Inl x
             | Inr (job, errors') \<Rightarrow> jobs_loop rest (jobs @ [(job_key, job)]) errors'))"

definition parse_jobs :: "nat \<Rightarrow> yaml \<Rightarrow> string list \<Rightarrow> py_exn + (yaml \<times> string list)" where
  "parse_jobs limit jobs_config errors =
     (if \<not> truthy jobs_config then Inr (Y_Map [], errors)
      else
        then_do (py_items jobs_config) (\<lambda>items.
        then_do (jobs_loop items [] errors) (\<lambda>(jobs, errors').
        then_do (validate_job_dependencies limit jobs errors') (\<lambda>errors''.
          Inr (Y_Map jobs, errors'')))))"

text \<open>\<open>_parse_config\<close>, on the dictionary \<open>raw\<close>.\<close>

definition parse_config :: "nat \<Rightarrow> (yaml \<times> yaml) list \<Rightarrow> string list \<Rightarrow> py_exn + (yaml \<times> string list)" where
  "parse_config limit raw errors =
     then_do (parse_triggers (dict_get raw ''on'' (Y_Map [])) errors) (\<lambda>(triggers, errors1).
     then_do (parse_jobs limit (dict_get raw ''jobs'' (Y_Map [])) errors1) (\<lambda>(jobs, errors2).
       Inr (Y_Map
              [(Y_Str ''name'', dict_get raw ''name'' (Y_Str ''Unnamed Pipeline'')),
               (Y_Str ''on'', triggers),
               (Y_Str ''env'', dict_get raw ''env'' (Y_Map [])),
               (Y_Str ''defaults'', dict_get raw ''defaults'' (Y_Map [])),
               (Y_Str ''concurrency'', parse_concurrency (dict_get raw ''concurrency'' (Y_Map []))),
               (Y_Str ''jobs'', jobs)],
            if \<not> truthy jobs then errors2 @ [''Pipeline must have at least one job'']
            else errors2)))"

text \<open>\<open>parse\<close>, from the outcome of \<open>yaml.safe_load\<close> on. The result on the right is
  the returned pair; a result on the left is an exception that leaves \<open>parse\<close>.\<close>

definition parse :: "nat \<Rightarrow> load_result \<Rightarrow> py_exn + (yaml \<times> string list)" where
  "parse limit loaded =
     (case loaded of
        YAML_Error e \<Rightarrow> Inr (Y_Map [], [''YAML syntax error: '' @ e])
      | Loaded (Y_Map raw) \<Rightarrow> parse_config limit raw []
      | Loaded _ \<Rightarrow> Inr (Y_Map [], [''Pipeline configuration must be a YAML object'']))"

text \<open>The document \<open>jobs: {build: make}\<close>, where the job is a string; the document
  \<open>"on": {push: main}\<close> with a well-formed job, where the push trigger is a string; and
  scenario S5, two jobs that need each other.\<close>

definition echo_job :: "yaml list \<Rightarrow> yaml" where
  "echo_job needs =
     Y_Map [(Y_Str ''runs-on'', Y_Str ''ubuntu''),
            (Y_Str ''needs'', Y_List needs),
            (Y_Str ''steps'', Y_List [Y_Map [(Y_Str ''run'', Y_Str ''make'')]])]"

definition job_is_string :: load_result where
  "job_is_string = Loaded (Y_Map [(Y_Str ''jobs'', Y_Map [(Y_Str ''build'', Y_Str ''make'')])])"

definition push_is_string :: load_result where
  "push_is_string =
     Loaded (Y_Map [(Y_Str ''on'', Y_Map [(Y_Str ''push'', Y_Str ''main'')]),
                    (Y_Str ''jobs'', Y_Map [(Y_Str ''build'', echo_job [])])])"

definition scenario_S5 :: load_result where
  "scenario_S5 =
     Loaded (Y_Map [(Y_Str ''jobs'',
                     Y_Map [(Y_Str ''a'', echo_job [Y_Str ''b'']),
                            (Y_Str ''b'', echo_job [Y_Str ''a''])])])"

subsection \<open>Documents, configurations and events of the scenarios\<close>

text \<open>
  A document with the given push trigger and one well-formed job, and the configuration that
  \<open>parse\<close> returns for a document (null where \<open>parse\<close> raises), with its errors. A
  configuration is stored as valid when the errors are empty.
\<close>

definition push_document :: "yaml \<Rightarrow> load_result" where
  "push_document push =
     Loaded (Y_Map [(Y_Str ''on'', Y_Map [(Y_Str ''push'', push)]),
                    (Y_Str ''jobs'', Y_Map [(Y_Str ''build'', echo_job [])])])"

definition parsed_config_of :: "load_result \<Rightarrow> yaml" where
  "parsed_config_of document =
     (case parse 10 document of Inr (config, errors) \<Rightarrow> config | Inl x \<Rightarrow> Y_Null)"

definition parse_errors_of :: "load_result \<Rightarrow> py_exn + string list" where
  "parse_errors_of document = map_sum id snd (parse 10 document)"



text \<open>\<open>on: {push: {tags: [1]}}\<close>, where the tag pattern is a number, and
  \<open>on: {push: {branches: main}}\<close>, where the filter is a string and not a list.\<close>

definition numeric_tag_document :: load_result where
  "numeric_tag_document = push_document (Y_Map [(Y_Str ''tags'', Y_List [Y_Int 1])])"

definition bare_branch_document :: load_result where
  "bare_branch_document = push_document (Y_Map [(Y_Str ''branches'', Y_Str ''main'')])"

text \<open>Scenario S1: \<open>on: {push: {branches: [main, 'release/**']}}\<close> and a push to
  \<open>main\<close> that changes \<open>src/x.go\<close>.\<close>

definition scenario_S1_document :: load_result where
  "scenario_S1_document =
     push_document (Y_Map [(Y_Str ''branches'', Y_List [Y_Str ''main'', Y_Str ''release/**''])])"


text \<open>Scenario S2: \<open>on: {push: {paths-ignore: ['**/*.md']}}\<close> and a push to \<open>main\<close>
  that changes \<open>README.md\<close> and \<open>docs/a.md\<close>.\<close>

definition scenario_S2_document :: load_result where
  "scenario_S2_document =
     push_document (Y_Map [(Y_Str ''paths-ignore'', Y_List [Y_Str ''**/*.md''])])"

definition scenario_S2_push :: push_event where
  "scenario_S2_push = push_of ''refs/heads/main'' [''README.md'', ''docs/a.md'']"

text \<open>A pipeline whose configuration is that of scenario S1, one whose configuration has the
  numeric tag pattern, two executions so far, the deletion of the branch \<open>main\<close> and the
  deletion of the tag \<open>v1.0\<close>.\<close>

definition pipeline_of :: "nat \<Rightarrow> load_result \<Rightarrow> pipeline" where
  "pipeline_of n document =
     \<lparr> pl_id = n, pl_tenant = 1, pl_name = ''build'',
       pl_configs = [\<lparr> cf_id = n, cf_version = 1, cf_is_valid = True,
                        cf_parsed_config = parsed_config_of document \<rparr>] \<rparr>"

definition main_pipeline :: pipeline where
  "main_pipeline = pipeline_of 1 scenario_S1_document"

definition numeric_tag_pipeline :: pipeline where
  "numeric_tag_pipeline = pipeline_of 2 numeric_tag_document"

definition two_runs :: webhook_state where
  "two_runs =
     \<lparr> ws_executions =
         [\<lparr> ex_id = 11, ex_tenant = 1, ex_pipeline = 1, ex_pipeline_config = Some 1,
            ex_number = 1, ex_trigger_type = ''push'', ex_status = ''success'' \<rparr>,
          \<lparr> ex_id = 12, ex_tenant = 1, ex_pipeline = 1, ex_pipeline_config = Some 1,
            ex_number = 2, ex_trigger_type = ''push'', ex_status = ''failed'' \<rparr>],
       ws_last_execution_at = [(1, 50)] \<rparr>"

definition branch_deletion :: push_event where
  "branch_deletion = (push_of ''refs/heads/main'' []) \<lparr> pe_deleted := True \<rparr>"

definition tag_deletion :: push_event where
  "tag_deletion = (push_of ''refs/tags/v1.0'' []) \<lparr> pe_deleted := True \<rparr>"
section \<open>Theorems\<close>

subsection \<open>Execution numbering\<close>

lemma sorted_le_last: "sorted xs \<Longrightarrow> x \<in> set xs \<Longrightarrow> x \<le> last (xs::nat list)"
  by (induction xs) auto

lemma hd_rev_sort_Max:
  assumes "rev (sort ns) = n # rest"
  shows "n = Max (set (ns::nat list))"
proof -
  have ne: "sort ns \<noteq> []" using assms by auto
  have n: "n = last (sort ns)" using assms by (metis hd_rev list.sel(1))
  have "n \<in> set ns" using n last_in_set [OF ne] by simp
  moreover have "\<And>x. x \<in> set ns \<Longrightarrow> x \<le> n"
    using sorted_le_last [of "sort ns"] n by simp
  ultimately show ?thesis by (intro Max_eqI [symmetric]) auto
qed

lemma first_number_desc_Max:
  "es \<noteq> [] \<Longrightarrow> first_number_desc es = Some (Max (set (map ex_number es)))"
proof (cases "rev (sort (map ex_number es))")
  case Nil
  then have "length (sort (map ex_number es)) = 0" by simp
  moreover assume "es \<noteq> []"
  ultimately show ?thesis by simp
next
  case (Cons n rest)
  from hd_rev_sort_Max [OF Cons] Cons show ?thesis
    by (simp add: first_number_desc_def)
qed

lemma get_next_number_fresh:
  "\<not> list_ex (\<lambda>e. ex_pipeline e = p \<and> ex_number e = get_next_number tbl p) tbl"
proof
  assume "list_ex (\<lambda>e. ex_pipeline e = p \<and> ex_number e = get_next_number tbl p) tbl"
  then obtain e where e: "e \<in> set tbl" "ex_pipeline e = p" "ex_number e = get_next_number tbl p"
    by (auto simp: list_ex_iff)
  then have mem: "e \<in> set (filter_pipeline tbl p)" by (simp add: filter_pipeline_def)
  then have ne: "filter_pipeline tbl p \<noteq> []" by auto
  have "ex_number e \<le> Max (set (map ex_number (filter_pipeline tbl p)))"
    using mem by (intro Max_ge) auto
  moreover have "get_next_number tbl p = Max (set (map ex_number (filter_pipeline tbl p))) + 1"
    using first_number_desc_Max [OF ne] by (simp add: get_next_number_def or_zero_def)
  ultimately show False using e(3) by simp
qed

text \<open>
  Claim C4. Every operation that creates an execution allocates
  \<open>max(existing numbers) + 1\<close>, so the number never collides, even after deletions. The
  retry endpoint does not: it allocates \<open>count + 1\<close>. On the pipeline whose execution 1 was
  deleted and whose execution 2 failed, retrying execution 2 asks for number 2 again, where
  \<open>max + 1\<close> is 3, and the insert fails on the unique constraint.
\<close>

theorem retry_number_collides:
  "retry_number pruned_table 1 = 2
   \<and> get_next_number pruned_table 1 = 3
   \<and> retry 8 pruned_table (hd pruned_table) = Inl IntegrityError"
  by (simp add: retry_number_def get_next_number_def or_zero_def first_number_desc_def
      filter_pipeline_def pruned_table_def retry_def objects_create_def)

subsection \<open>Status updates\<close>

lemma step_finished_iff_terminal:
  "uf_finished_at (step_update_fields now status exit_code outputs) \<noteq> None \<longleftrightarrow> terminal status"
  by (auto simp: step_update_fields_def terminal_def Let_def)

lemma job_finished_iff:
  "uf_finished_at (job_update_fields now status outputs) \<noteq> None
     \<longleftrightarrow> terminal status \<and> status \<noteq> ''skipped''"
  by (auto simp: job_update_fields_def terminal_def Let_def)

lemma started_iff_running:
  "(uf_started_at (job_update_fields now status outputs) \<noteq> None \<longleftrightarrow> status = ''running'')
   \<and> (uf_started_at (step_update_fields now status exit_code outputs) \<noteq> None
        \<longleftrightarrow> status = ''running'')"
  by (auto simp: job_update_fields_def step_update_fields_def Let_def)

text \<open>
  Claim C7. For both entity types, \<open>finished_at\<close> is set if and only if the new status is
  terminal (success, failed, cancelled, timeout or skipped). The step branch does so; the job
  branch leaves \<open>skipped\<close> out of its tuple: a running job that is reported skipped keeps
  an empty \<open>finished_at\<close>, while the step with the same message gets the time stamp.
\<close>

theorem job_skipped_not_finished:
  "terminal ''skipped''
   \<and> map en_finished_at
        (jobs_tbl (update_entity_status 20 running_job_db ''job'' 3 ''skipped'' None [])) = [None]
   \<and> map en_finished_at
        (steps_tbl (update_entity_status 20 running_job_db ''step'' 3 ''skipped'' None [])) = [Some 20]"
  by (simp add: terminal_def update_entity_status_def running_job_db_def filter_update_def
      apply_update_def job_update_fields_def step_update_fields_def Let_def)

subsection \<open>Matrix expansion\<close>

lemma zip_itertools_product:
  "map (zip (map fst vars)) (itertools_product (map snd vars)) = cartesian vars"
proof (induction vars)
  case Nil
  show ?case by simp
next
  case (Cons kv vars)
  obtain k vs where kv: "kv = (k, vs)" by (cases kv)
  show ?case
    unfolding kv using Cons.IH [symmetric]
    by (simp add: map_concat comp_def)
qed

lemma mx_matches_pattern_iff:
  "mx_matches_pattern combination pattern = pattern_matches pattern combination"
  by (induction pattern) (auto simp: pattern_matches_def split: if_splits)

lemma should_exclude_iff:
  "should_exclude combination exclude = excluded exclude combination"
  by (induction exclude) (auto simp: excluded_def mx_matches_pattern_iff)

lemma length_cartesian: "length (cartesian vars) = prod_list (map (length \<circ> snd) vars)"
proof (induction vars)
  case Nil
  show ?case by simp
next
  case (Cons kv vars)
  obtain k vs where kv: "kv = (k, vs)" by (cases kv)
  show ?case unfolding kv using Cons.IH
    by (simp add: length_concat comp_def sum_list_triv)
qed

lemma expand_matrix_eq:
  "expand_matrix strategy =
     (if matrix_falsy (st_matrix strategy) then [[]]
      else filter (\<lambda>c. \<not> excluded (exclude_of strategy) c) (base_product (variables_of strategy))
           @ include_of strategy)"
  by (cases "st_matrix strategy")
     (simp_all add: expand_matrix_def matrix_falsy_def Let_def base_product_def
        variables_of_def include_of_def exclude_of_def zip_itertools_product should_exclude_iff)

lemma length_filter_not:
  "length (filter (\<lambda>x. \<not> P x) xs) = length xs - length (filter P xs)"
  using sum_length_filter_compl [of P xs] by simp

text \<open>
  Claim C5, as stated: \<open>expand_matrix\<close> yields the cartesian product over the variables
  without the excluded combinations, then the include entries; the empty matrix yields the
  one empty combination. It fails on a non-empty matrix that has no variables: the cartesian
  product over no variable is the one empty combination (as \<open>itertools.product()\<close>
  gives), and the guard \<open>if variables:\<close> skips it.
\<close>

theorem expand_matrix_include_only_counterexample:
  "expand_matrix include_only = [[(''os'', ''ubuntu'')]]
   \<and> spec_expand_matrix include_only = [[], [(''os'', ''ubuntu'')]]"
  by (simp add: expand_matrix_def spec_expand_matrix_def include_only_def matrix_falsy_def
      get_or_def excluded_def variables_of_def include_of_def exclude_of_def)

text \<open>
  Claim C5, amended: for every strategy, \<open>expand_matrix\<close> yields exactly the cartesian
  product over the variables in declaration order (nothing when the matrix is non-empty and
  has no variables), without every combination that some exclude entry matches on all of its
  keys, followed by the include entries verbatim and in order; the empty matrix yields the one
  empty combination.
\<close>

theorem expand_matrix_amended:
  "expand_matrix strategy = amended_expand_matrix strategy"
  by (simp add: expand_matrix_eq amended_expand_matrix_def)

theorem expand_matrix_amended_witness:
  "expand_matrix scenario_S4 =
     [[(''os'', ''ubuntu''), (''node'', ''18'')],
      [(''os'', ''ubuntu''), (''node'', ''20'')],
      [(''os'', ''macos''), (''node'', ''20'')],
      [(''os'', ''ubuntu''), (''node'', ''16''), (''experimental'', ''true'')]]"
  unfolding expand_matrix_amended [of scenario_S4]
  by (simp add: amended_expand_matrix_def scenario_S4_def matrix_falsy_def get_or_def
      excluded_def pattern_matches_def base_product_def variables_of_def include_of_def
      exclude_of_def)

text \<open>
  Claim C9, as stated: the number of combinations is the product of the lengths of the value
  lists, minus the excluded base combinations, plus the include entries. On the matrix with
  one include entry and no variable the formula gives \<open>1 - 0 + 1 = 2\<close> and the code
  yields one combination.
\<close>

theorem count_include_only_counterexample:
  "count_matrix_combinations include_only = 1 \<and> spec_count include_only = 2"
  by (simp add: count_matrix_combinations_def expand_matrix_def spec_count_def include_only_def
      matrix_falsy_def get_or_def excluded_def variables_of_def include_of_def exclude_of_def)

text \<open>
  Claim C9, amended: the number of combinations is 1 for the empty matrix and otherwise the
  product of the lengths of the value lists, counted as 0 when there is no variable, minus
  the number of base combinations that some exclude entry matches, plus the number of include
  entries.
\<close>

theorem count_matrix_amended:
  "count_matrix_combinations strategy = amended_count strategy"
proof -
  let ?vars = "variables_of strategy"
  have "length (filter (excluded (exclude_of strategy)) (cartesian ?vars))
          \<le> prod_list (map (length \<circ> snd) ?vars)"
    using length_filter_le [of "excluded (exclude_of strategy)" "cartesian ?vars"]
    by (simp only: length_cartesian)
  then show ?thesis
    by (simp add: count_matrix_combinations_def expand_matrix_eq amended_count_def
        length_filter_not base_product_def length_cartesian)
qed

theorem count_matrix_amended_witness:
  "count_matrix_combinations scenario_S4 = 2 * 2 - 1 + 1"
  unfolding count_matrix_amended [of scenario_S4]
  by (simp add: amended_count_def scenario_S4_def matrix_falsy_def get_or_def
      excluded_def pattern_matches_def base_product_def variables_of_def include_of_def
      exclude_of_def)

subsection \<open>Log history\<close>

lemma long_log_joined:
  "joined_chunks long_log_db (subscribed_steps long_log_db 4 None) =
     map (\<lambda>n. (\<lparr> sp_id = 5, sp_job_id = 2, sp_order = 0 \<rparr>, chunk_of n)) [0..<1001]"
  by (simp add: joined_chunks_def subscribed_steps_def long_log_db_def chunk_of_def
      map_concat comp_def del: upt_Suc)

lemma long_log_ordered:
  "ordered_chunks long_log_db 4 None =
     map (\<lambda>n. (\<lparr> sp_id = 5, sp_job_id = 2, sp_order = 0 \<rparr>, chunk_of n)) [0..<1001]"
proof -
  have "sorted (map order_key
           (map (\<lambda>n. (\<lparr> sp_id = 5, sp_job_id = 2, sp_order = 0 \<rparr>, chunk_of n)) [0..<1001]))"
    by (simp add: comp_def order_key_def chunk_of_def sorted_map sorted_wrt_upt
        sorted_wrt_mono_rel [of _ "(<)"] less_eq_prod_def del: upt_Suc)
  then show ?thesis
    unfolding ordered_chunks_def long_log_joined by (rule sort_key_id_if_sorted)
qed


lemma long_log_history:
  "map (lc_chunk_number \<circ> snd) (history_chunks long_log_db 4 None) = [0..<1000]"
  by (simp add: history_chunks_def long_log_ordered take_map comp_def chunk_of_def del: upt_Suc)

text \<open>
  Claim C8, as stated: the backlog is at most 1000 chunks, the most recent ones, in the order
  of (job id, step order, chunk number), followed by the \<open>history_complete\<close> marker and
  then by the live frames. The slice \<open>[:1000]\<close> of the ascending query keeps the first
  1000 chunks: of the 1001 chunks of one step, numbered 0 to 1000, chunks 0 to 999 are sent
  and the most recent one, chunk 1000, is not.
\<close>

theorem history_keeps_oldest_counterexample:
  "map (lc_chunk_number \<circ> snd) (history_chunks long_log_db 4 None) = [0..<1000]
   \<and> map (lc_chunk_number \<circ> snd) (spec_history_chunks long_log_db 4 None) = [1..<1001]"
proof -
  have "map (lc_chunk_number \<circ> snd) (spec_history_chunks long_log_db 4 None) = [1..<1001]"
    by (simp add: spec_history_chunks_def Let_def long_log_ordered drop_map comp_def chunk_of_def
        del: upt_Suc)
  with long_log_history show ?thesis by simp
qed

text \<open>The query of \<open>get_existing_logs\<close> against the specification's side.\<close>

lemma joined_chunks_mem:
  "(s, c) \<in> set (joined_chunks db steps) \<longleftrightarrow>
     s \<in> set steps \<and> c \<in> set (chunk_tbl db) \<and> sp_id s = lc_step_id c"
  unfolding joined_chunks_def by (auto simp: image_iff intro: bexI [of _ s])

lemma subscribed_steps_mem:
  "s \<in> set (subscribed_steps db e j) \<longleftrightarrow>
     s \<in> set (step_tbl db)
     \<and> (case j of
          Some i \<Rightarrow> sp_job_id s = i
        | None \<Rightarrow> (\<exists>jb \<in> set (job_tbl db). jb_id jb = sp_job_id s \<and> jb_execution_id jb = e))"
  by (cases j) (auto simp: subscribed_steps_def Let_def image_iff)

lemma joined_chunks_iff:
  "(s, c) \<in> set (joined_chunks db (subscribed_steps db e j)) \<longleftrightarrow> in_subscription db e j s c"
  unfolding joined_chunks_mem subscribed_steps_mem in_subscription_def by auto

lemma order_key_le_iff: "order_key x \<le> order_key y \<longleftrightarrow> history_before x y"
  by (auto simp: order_key_def history_before_def less_eq_prod_def)

lemma sorted_history_before:
  "sorted (map order_key xs) \<longleftrightarrow> sorted_wrt history_before xs"
  by (induction xs) (simp_all add: order_key_le_iff)

lemma distinct_joined_chunks:
  assumes "distinct steps"
  shows "distinct cs \<Longrightarrow>
    distinct (concat (map (\<lambda>c. map (\<lambda>s. (s, c)) (filter (\<lambda>s. sp_id s = lc_step_id c) steps))
                 (filter P cs)))"
proof (induction cs)
  case Nil
  show ?case by simp
next
  case (Cons c cs)
  have "distinct (map (\<lambda>s. (s, c)) (filter (\<lambda>s. sp_id s = lc_step_id c) steps))"
    using assms by (simp add: distinct_map inj_on_def)
  moreover have "\<And>x. x \<in> set (concat (map (\<lambda>c. map (\<lambda>s. (s, c)) (filter (\<lambda>s. sp_id s = lc_step_id c) steps))
                 (filter P cs))) \<Longrightarrow> snd x \<in> set cs"
    by auto
  ultimately show ?case using Cons by auto
qed

lemma distinct_history_chunks:
  "distinct (step_tbl db) \<Longrightarrow> distinct (chunk_tbl db) \<Longrightarrow> distinct (history_chunks db e j)"
proof -
  assume a: "distinct (step_tbl db)" "distinct (chunk_tbl db)"
  have "distinct (subscribed_steps db e j)"
    using a(1) by (cases j) (simp_all add: subscribed_steps_def Let_def)
  then have "distinct (joined_chunks db (subscribed_steps db e j))"
    unfolding joined_chunks_def using a(2) by (rule distinct_joined_chunks)
  then show ?thesis by (simp add: history_chunks_def ordered_chunks_def)
qed

text \<open>
  Claim C8, amended: a subscriber that passes authorization is sent the \<open>connected\<close>
  frame, then one \<open>log\<close> frame for each chunk of a backlog, then the \<open>history_complete\<close>
  marker with their count, and only then the live frames. The backlog has at most 1000 chunks;
  each is a stored chunk of a step of the subscribed job or, without a job, of a job of the
  subscribed execution (none twice, the rows of the tables being distinct); they are in the
  order of (job id, step order, chunk number); and a chunk of the subscription is left out
  only when 1000 chunks are sent, each of which comes before or ties with it in that order.
\<close>

theorem session_sends_first_1000:
  "session_frames True db e j events =
       Connected e j
       # map (\<lambda>(s, c). Log (sp_job_id s) (lc_step_id c) (lc_timestamp c) (lc_content c) (lc_level c))
           (history_chunks db e j)
       @ History_Complete (length (history_chunks db e j)) # map handle_event events
   \<and> length (history_chunks db e j) \<le> 1000
   \<and> (\<forall>(s, c) \<in> set (history_chunks db e j). in_subscription db e j s c)
   \<and> (distinct (step_tbl db) \<and> distinct (chunk_tbl db) \<longrightarrow> distinct (history_chunks db e j))
   \<and> sorted_wrt history_before (history_chunks db e j)
   \<and> (\<forall>s c. in_subscription db e j s c \<and> (s, c) \<notin> set (history_chunks db e j) \<longrightarrow>
         length (history_chunks db e j) = 1000
         \<and> (\<forall>x \<in> set (history_chunks db e j). history_before x (s, c)))"
proof -
  let ?all = "ordered_chunks db e j"
  let ?sent = "history_chunks db e j"
  have sent: "?sent = take 1000 ?all" by (simp add: history_chunks_def)
  have mem: "\<And>s c. (s, c) \<in> set ?all \<longleftrightarrow> in_subscription db e j s c"
    by (simp add: ordered_chunks_def joined_chunks_iff)
  have "sorted (map order_key ?all)" by (simp add: ordered_chunks_def)
  then have s: "sorted_wrt history_before ?all" by (simp add: sorted_history_before)
  then have "sorted_wrt history_before (take 1000 ?all @ drop 1000 ?all)" by simp
  then have split: "sorted_wrt history_before (take 1000 ?all)"
    "\<forall>x \<in> set (take 1000 ?all). \<forall>y \<in> set (drop 1000 ?all). history_before x y"
    unfolding sorted_wrt_append by auto
  have 1: "session_frames True db e j events =
       Connected e j
       # map (\<lambda>(s, c). Log (sp_job_id s) (lc_step_id c) (lc_timestamp c) (lc_content c) (lc_level c))
           ?sent
       @ History_Complete (length ?sent) # map handle_event events"
    by (simp add: session_frames_def connect_def send_history_def get_existing_logs_def
        log_frame_def case_prod_beta)
  have 2: "length ?sent \<le> 1000" by (simp add: sent)
  have 3: "\<forall>(s, c) \<in> set ?sent. in_subscription db e j s c"
    using mem by (auto simp: sent dest: in_set_takeD)
  have 4: "distinct (step_tbl db) \<and> distinct (chunk_tbl db) \<longrightarrow> distinct ?sent"
    by (simp add: distinct_history_chunks)
  have 5: "sorted_wrt history_before ?sent" using split(1) by (simp add: sent)
  have 6: "\<forall>s c. in_subscription db e j s c \<and> (s, c) \<notin> set ?sent \<longrightarrow>
         length ?sent = 1000 \<and> (\<forall>x \<in> set ?sent. history_before x (s, c))"
  proof (intro allI impI)
    fix s c
    assume a: "in_subscription db e j s c \<and> (s, c) \<notin> set ?sent"
    then have "(s, c) \<in> set (take 1000 ?all @ drop 1000 ?all)" using mem by simp
    with a have d: "(s, c) \<in> set (drop 1000 ?all)" unfolding set_append sent by blast
    then have "drop 1000 ?all \<noteq> []" by auto
    then have "length ?sent = 1000" by (simp add: sent)
    moreover have "\<forall>x \<in> set ?sent. history_before x (s, c)"
      using split(2) d by (simp add: sent)
    ultimately show "length ?sent = 1000 \<and> (\<forall>x \<in> set ?sent. history_before x (s, c))" ..
  qed
  from 1 2 3 4 5 6 show ?thesis by blast
qed

lemma chunk_1000_subscribed:
  "in_subscription long_log_db 4 None \<lparr> sp_id = 5, sp_job_id = 2, sp_order = 0 \<rparr> (chunk_of 1000)"
  by (simp add: in_subscription_def long_log_db_def chunk_of_def)

lemma chunk_1000_not_sent:
  "(\<lparr> sp_id = 5, sp_job_id = 2, sp_order = 0 \<rparr>, chunk_of 1000) \<notin> set (history_chunks long_log_db 4 None)"
proof
  assume "(\<lparr> sp_id = 5, sp_job_id = 2, sp_order = 0 \<rparr>, chunk_of 1000) \<in> set (history_chunks long_log_db 4 None)"
  then have "(lc_chunk_number \<circ> snd) (\<lparr> sp_id = 5, sp_job_id = 2, sp_order = 0 \<rparr>, chunk_of 1000)
       \<in> set (map (lc_chunk_number \<circ> snd) (history_chunks long_log_db 4 None))"
    unfolding set_map by (rule imageI)
  then show False unfolding long_log_history by (simp add: chunk_of_def)
qed

theorem session_sends_first_1000_witness:
  "length (history_chunks long_log_db 4 None) = 1000
   \<and> map (lc_chunk_number \<circ> snd) (history_chunks long_log_db 4 None) = [0..<1000]
   \<and> hd (session_frames True long_log_db 4 None [Ping]) = Connected 4 None
   \<and> last (session_frames True long_log_db 4 None [Ping]) = Pong"
proof -
  note th = session_sends_first_1000 [of long_log_db 4 None "[Ping]"]
  from th chunk_1000_subscribed chunk_1000_not_sent
  have "length (history_chunks long_log_db 4 None) = 1000" by blast
  moreover from th have "hd (session_frames True long_log_db 4 None [Ping]) = Connected 4 None"
    by simp
  moreover from th have "last (session_frames True long_log_db 4 None [Ping]) = Pong" by simp
  ultimately show ?thesis using long_log_history by blast
qed

subsection \<open>Signature verification\<close>

lemma hexdigit_ascii: "(of_char (hexdigit n) :: nat) < 128"
proof -
  have "hexdigit n \<in> set ''0123456789abcdef''"
    unfolding hexdigit_def by (rule nth_mem) simp
  then show ?thesis by auto
qed

lemma hexdigest_ascii: "is_ascii (hexdigest bs)"
  by (induction bs) (simp_all add: hexdigest_def is_ascii_def hexdigit_ascii)

lemma verify_iff:
  "verify mac secret payload signature = Inr True \<longleftrightarrow>
     secret = [] \<or>
     (startswith signature SIGNATURE_PREFIX
      \<and> drop (length SIGNATURE_PREFIX) signature = compute_signature mac secret payload)"
proof -
  have e: "is_ascii (compute_signature mac secret payload)"
    by (simp add: compute_signature_def hexdigest_ascii)
  have "startswith signature SIGNATURE_PREFIX \<Longrightarrow> signature \<noteq> []"
    by (auto simp: startswith_def SIGNATURE_PREFIX_def)
  then show ?thesis using e
    by (auto simp: verify_def compare_digest_def Let_def)
qed


lemma is_hex_ascii: "is_hex s \<Longrightarrow> is_ascii s"
  by (induction s) (auto simp: is_hex_def is_ascii_def)

text \<open>
  The digest the verifier computes is the hexadecimal digest, in the sense of the
  specification, of the keyed hash of the body under the UTF-8 bytes of the secret, and the
  only string that is.
\<close>

lemma hex_value_hexdigit: "hex_value (hexdigit n) = Some (n mod 16)"
proof -
  have "map_of (zip ''0123456789abcdef'' [0 ..< 16]) (''0123456789abcdef'' ! (n mod 16))
          = Some ([0 ..< 16] ! (n mod 16))"
    by (rule map_of_zip_nth) simp_all
  then show ?thesis by (simp add: hex_value_def hexdigit_def)
qed

lemma hex_value_SomeD:
  assumes "hex_value c = Some h"
  shows "h < 16 \<and> c = hexdigit h"
proof -
  from assms have "(c, h) \<in> set (zip ''0123456789abcdef'' [0 ..< 16])"
    unfolding hex_value_def by (rule map_of_SomeD)
  then obtain i where i: "i < 16" "c = ''0123456789abcdef'' ! i" "h = [0 ..< 16] ! i"
    unfolding in_set_zip by auto
  then have "h = i" by simp
  with i show ?thesis by (simp add: hexdigit_def)
qed

lemma byte_of_nibbles: "(of_nat (16 * (unat b div 16) + unat b mod 16) :: 8 word) = b"
  by simp

lemma nibbles_of_byte:
  assumes "h < 16" "l < 16"
  shows "unat (of_nat (16 * h + l) :: 8 word) div 16 = h"
    and "unat (of_nat (16 * h + l) :: 8 word) mod 16 = l"
proof -
  have "16 * h + l < 256" using assms by simp
  then have u: "unat (of_nat (16 * h + l) :: 8 word) = 16 * h + l"
    by (subst unat_of_nat) simp
  show "unat (of_nat (16 * h + l) :: 8 word) div 16 = h" unfolding u using assms by simp
  show "unat (of_nat (16 * h + l) :: 8 word) mod 16 = l" unfolding u using assms by simp
qed

lemma unhex_hexdigest: "unhex (hexdigest bs) = Some bs"
proof (induction bs)
  case Nil
  show ?case by (simp add: hexdigest_def)
next
  case (Cons b bs)
  have "unat b < 256" using unsigned_less [of b] by simp
  then have "unat b div 16 < 16" by simp
  then have d: "unat b div 16 mod 16 = unat b div 16" by simp
  have "hexdigest (b # bs) = hexdigit (unat b div 16) # hexdigit (unat b mod 16) # hexdigest bs"
    by (simp add: hexdigest_def)
  then show ?case using Cons.IH by (simp add: hex_value_hexdigit d)
qed

lemma unhex_SomeD: "unhex d = Some bs \<Longrightarrow> d = hexdigest bs"
proof (induction d arbitrary: bs rule: unhex.induct)
  case 1
  then show ?case by (simp add: hexdigest_def)
next
  case (2 c)
  then show ?case by simp
next
  case (3 a b s)
  from 3(2) obtain h l bs' where
    p: "hex_value a = Some h" "hex_value b = Some l" "unhex s = Some bs'"
       "bs = of_nat (16 * h + l) # bs'"
    by (auto split: option.splits)
  from p(3) have s: "s = hexdigest bs'" by (rule 3(1))
  from p(1) have a: "h < 16" "a = hexdigit h" by (auto dest: hex_value_SomeD)
  from p(2) have b: "l < 16" "b = hexdigit l" by (auto dest: hex_value_SomeD)
  have "hexdigest bs = hexdigit h # hexdigit l # hexdigest bs'"
    using nibbles_of_byte [OF a(1) b(1)] by (simp add: p(4) hexdigest_def)
  then show ?case using s a b by simp
qed

lemma hex_digest_of_iff: "hex_digest_of bs d \<longleftrightarrow> d = hexdigest bs"
  unfolding hex_digest_of_def using unhex_hexdigest unhex_SomeD by blast

lemma verify_spec_iff:
  "verify mac secret payload signature = Inr True \<longleftrightarrow>
     secret = [] \<or>
     (\<exists>d. signature = ''sha256='' @ d \<and> hex_digest_of (mac (encode_utf8 secret) payload) d)"
proof -
  have "startswith signature SIGNATURE_PREFIX \<and>
          drop (length SIGNATURE_PREFIX) signature = compute_signature mac secret payload
        \<longleftrightarrow> (\<exists>d. signature = ''sha256='' @ d \<and> d = compute_signature mac secret payload)"
    unfolding startswith_def SIGNATURE_PREFIX_def
    by (metis append_eq_conv_conj)
  then show ?thesis
    unfolding verify_iff hex_digest_of_iff compute_signature_def by simp
qed

text \<open>
  Claim C2. For every body, header and secret, verification returns true if and only if the
  secret is empty, or the header is \<open>sha256=\<close> followed by the hexadecimal digest of the keyed
  hash of this body under this secret (the string whose pairs of lower-case hexadecimal digits
  read back as the bytes of \<open>mac (encode_utf8 secret) payload\<close>); with a non-empty secret, an
  empty header, a header without the prefix and a header whose hexadecimal remainder is not that
  digest are each rejected. This holds for any keyed hash function \<open>mac\<close>, so for HMAC-SHA256.
\<close>

theorem verify_true_iff:
  "(verify mac secret payload signature = Inr True \<longleftrightarrow>
      secret = [] \<or>
      (\<exists>d. signature = ''sha256='' @ d \<and> hex_digest_of (mac (encode_utf8 secret) payload) d))
   \<and> (secret \<noteq> [] \<longrightarrow> verify mac secret payload [] = Inr False)
   \<and> (secret \<noteq> [] \<and> (\<nexists>d. signature = ''sha256='' @ d)
        \<longrightarrow> verify mac secret payload signature = Inr False)
   \<and> (secret \<noteq> [] \<and> is_hex digest \<and> \<not> hex_digest_of (mac (encode_utf8 secret) payload) digest
        \<longrightarrow> verify mac secret payload (''sha256='' @ digest) = Inr False)"
proof -
  have e: "is_ascii (hexdigest (mac (encode_utf8 secret) payload))"
    by (rule hexdigest_ascii)
  have "is_hex digest \<Longrightarrow> digest \<noteq> hexdigest (mac (encode_utf8 secret) payload) \<Longrightarrow>
          compare_digest (hexdigest (mac (encode_utf8 secret) payload)) digest = Inr False"
    using e by (auto simp: compare_digest_def dest: is_hex_ascii)
  then have 4: "secret \<noteq> [] \<and> is_hex digest
        \<and> \<not> hex_digest_of (mac (encode_utf8 secret) payload) digest
        \<longrightarrow> verify mac secret payload (''sha256='' @ digest) = Inr False"
    by (simp add: verify_def startswith_def SIGNATURE_PREFIX_def hex_digest_of_iff
        compute_signature_def)
  have 2: "secret \<noteq> [] \<longrightarrow> verify mac secret payload [] = Inr False"
    by (simp add: verify_def)
  have "(\<nexists>d. signature = ''sha256='' @ d) \<Longrightarrow> \<not> startswith signature SIGNATURE_PREFIX"
    unfolding startswith_def SIGNATURE_PREFIX_def by (metis append_take_drop_id)
  then have 3: "secret \<noteq> [] \<and> (\<nexists>d. signature = ''sha256='' @ d)
        \<longrightarrow> verify mac secret payload signature = Inr False"
    by (simp add: verify_def)
  from 2 3 4 verify_spec_iff [of mac secret payload signature] show ?thesis by blast
qed

lemma sample_digest: "hex_digest_of (sample_mac (encode_utf8 ''s3cret'') [0x7B, 0x7D]) ''a61d''"
  by code_simp

lemma sample_digest_c: "\<not> hex_digest_of (sample_mac (encode_utf8 ''s3cret'') [0x7B, 0x7D]) ''a61c''"
  by code_simp

theorem verify_true_iff_witness:
  "verify sample_mac ''s3cret'' [0x7B, 0x7D] ''sha256=a61d'' = Inr True
   \<and> verify sample_mac ''s3cret'' [0x7B, 0x7D] [] = Inr False
   \<and> verify sample_mac ''s3cret'' [0x7B, 0x7D] ''a61d'' = Inr False
   \<and> verify sample_mac ''s3cret'' [0x7B, 0x7D] ''sha256=a61c'' = Inr False"
proof -
  note a = verify_true_iff [of sample_mac "''s3cret''" "[0x7B, 0x7D]" "''sha256=a61d''" "''a61c''"]
  note b = verify_true_iff [of sample_mac "''s3cret''" "[0x7B, 0x7D]" "''a61d''" "''a61c''"]
  have 1: "verify sample_mac ''s3cret'' [0x7B, 0x7D] ''sha256=a61d'' = Inr True"
    using a sample_digest by simp
  have 2: "verify sample_mac ''s3cret'' [0x7B, 0x7D] [] = Inr False"
    using a by simp
  have 3: "verify sample_mac ''s3cret'' [0x7B, 0x7D] ''a61d'' = Inr False"
    using b by simp
  have 4: "verify sample_mac ''s3cret'' [0x7B, 0x7D] ''sha256=a61c'' = Inr False"
    using a sample_digest_c by (simp add: is_hex_def)
  from 1 2 3 4 show ?thesis by blast
qed

text \<open>Through \<open>verify_github_signature\<close> a missing or empty secret falls back to the
  setting; without a setting every request is accepted.\<close>

lemma verify_github_signature_without_secret:
  "secret = None \<or> secret = Some [] \<Longrightarrow>
   verify_github_signature mac None payload signature secret = Inr True"
  by (auto simp: verify_github_signature_def verifier_secret_def verify_def)

text \<open>With a secret, a header with the prefix and a character beyond ASCII in the remainder
  makes \<open>compare_digest\<close> raise; \<open>verify\<close> then returns nothing.\<close>

lemma verify_non_ascii_raises:
  "secret \<noteq> [] \<Longrightarrow> verify mac secret payload (''sha256=ab'' @ [CHR 0xE9]) = Inl TypeError"
  by (simp add: verify_def startswith_def SIGNATURE_PREFIX_def compare_digest_def is_ascii_def)

subsection \<open>Trigger matching\<close>

text \<open>On a list of strings the loops return, and return whether some pattern matches.\<close>

lemma pattern_loop_strings:
  "pattern_loop lib v (map Y_Str ps) = Inr (ref_list_matches lib v ps)"
proof (induction ps)
  case Nil
  show ?case by (simp add: ref_list_matches_def)
next
  case (Cons p ps)
  obtain b where b: "matches_pattern lib v (Y_Str p) = Inr b"
    by (cases "v = p") (simp_all add: matches_pattern_def)
  show ?case using Cons b by (cases b) (simp_all add: then_do_def ref_list_matches_def)
qed

lemma path_pattern_loop_strings:
  "path_pattern_loop lib f (map Y_Str ps) = Inr (path_list_matches lib f ps)"
proof (induction ps)
  case Nil
  show ?case by (simp add: path_list_matches_def)
next
  case (Cons p ps)
  obtain b where b: "matches_path_pattern lib f (Y_Str p) = Inr b"
    by (simp add: matches_path_pattern_def)
  show ?case using Cons b by (cases b) (simp_all add: then_do_def path_list_matches_def)
qed

lemma pattern_strings_map:
  "list_all (\<lambda>p. case p of Y_Str s \<Rightarrow> True | _ \<Rightarrow> False) ps \<Longrightarrow> map Y_Str (pattern_strings ps) = ps"
proof (induction ps)
  case Nil
  show ?case by simp
next
  case (Cons p ps)
  then show ?case by (cases p) simp_all
qed

text \<open>A well-formed filter is either false, and then has no pattern, or the list of its
  patterns, which is not empty.\<close>

lemma filter_well_formed_cases:
  assumes "filter_well_formed d key"
  shows "(\<not> truthy (dict_get d key (Y_List [])) \<and> patterns_of d key = [])
       \<or> (truthy (dict_get d key (Y_List [])) \<and> patterns_of d key \<noteq> []
          \<and> dict_get d key (Y_List []) = Y_List (map Y_Str (patterns_of d key)))"
proof (cases "truthy (dict_get d key (Y_List []))")
  case False
  then have "patterns_of d key = []"
    unfolding patterns_of_def by (cases "dict_get d key (Y_List [])") simp_all
  with False show ?thesis by simp
next
  case True
  with assms have "pattern_list (dict_get d key (Y_List []))"
    by (simp add: filter_well_formed_def)
  then obtain ps where ps: "dict_get d key (Y_List []) = Y_List ps"
    "list_all (\<lambda>p. case p of Y_Str s \<Rightarrow> True | _ \<Rightarrow> False) ps"
    by (cases "dict_get d key (Y_List [])") simp_all
  from ps(2) have m: "map Y_Str (pattern_strings ps) = ps" by (rule pattern_strings_map)
  from True ps(1) have "ps \<noteq> []" by simp
  with m have "pattern_strings ps \<noteq> []" by auto
  with True ps(1) m show ?thesis by (simp add: patterns_of_def)
qed

lemma ref_filter:
  assumes "filter_well_formed d key"
  shows "(if truthy (dict_get d key (Y_List []))
          then matches_pattern_list lib v (dict_get d key (Y_List []))
          else Inr dflt)
         = Inr (if patterns_of d key = [] then dflt
                else ref_list_matches lib v (patterns_of d key))"
  using filter_well_formed_cases [OF assms]
proof (elim disjE conjE)
  assume "\<not> truthy (dict_get d key (Y_List []))" "patterns_of d key = []"
  then show ?thesis by simp
next
  assume a: "truthy (dict_get d key (Y_List []))" "patterns_of d key \<noteq> []"
    "dict_get d key (Y_List []) = Y_List (map Y_Str (patterns_of d key))"
  have "matches_pattern_list lib v (Y_List (map Y_Str (patterns_of d key)))
          = Inr (ref_list_matches lib v (patterns_of d key))"
    by (simp add: matches_pattern_list_def then_do_def pattern_loop_strings)
  with a show ?thesis by simp
qed

lemma path_filter:
  assumes "filter_well_formed d key" "truthy (dict_get d key (Y_List []))"
  shows "matches_path_pattern_list lib f (dict_get d key (Y_List []))
         = Inr (path_list_matches lib f (patterns_of d key))"
proof -
  from filter_well_formed_cases [OF assms(1)] assms(2)
  have a: "dict_get d key (Y_List []) = Y_List (map Y_Str (patterns_of d key))" by blast
  have "matches_path_pattern_list lib f (Y_List (map Y_Str (patterns_of d key)))
          = Inr (path_list_matches lib f (patterns_of d key))"
    by (simp add: matches_path_pattern_list_def then_do_def path_pattern_loop_strings)
  with a show ?thesis by simp
qed

lemma py_all_returns: "py_all (\<lambda>x. Inr (g x)) xs = Inr (\<forall>x \<in> set xs. g x)"
  by (induction xs) (simp_all add: then_do_def)

lemma py_any_returns: "py_any (\<lambda>x. Inr (g x)) xs = Inr (\<exists>x \<in> set xs. g x)"
  by (induction xs) (simp_all add: then_do_def)

lemma paths_ignore_filter:
  assumes "filter_well_formed d ''paths_ignore''"
  shows "(if truthy (dict_get d ''paths_ignore'' (Y_List []))
          then then_do (py_all (\<lambda>f. matches_path_pattern_list lib f
                                       (dict_get d ''paths_ignore'' (Y_List [])))
                          (changed_files event))
                 (\<lambda>all_ignored. Inr (all_ignored \<and> changed_files event \<noteq> []))
          else Inr False)
         = Inr (all_files_ignored lib event d)"
proof (cases "truthy (dict_get d ''paths_ignore'' (Y_List []))")
  case False
  with filter_well_formed_cases [OF assms] show ?thesis
    by (simp add: all_files_ignored_def)
next
  case True
  with filter_well_formed_cases [OF assms] have n: "patterns_of d ''paths_ignore'' \<noteq> []"
    by blast
  show ?thesis using True n
    by (auto simp: path_filter [OF assms True] py_all_returns then_do_def all_files_ignored_def)
qed

lemma paths_filter:
  assumes "filter_well_formed d ''paths''"
  shows "(if truthy (dict_get d ''paths'' (Y_List []))
          then py_any (\<lambda>f. matches_path_pattern_list lib f (dict_get d ''paths'' (Y_List [])))
                 (changed_files event)
          else Inr True)
         = Inr (\<not> no_file_in_paths lib event d)"
proof (cases "truthy (dict_get d ''paths'' (Y_List []))")
  case False
  with filter_well_formed_cases [OF assms] show ?thesis
    by (simp add: no_file_in_paths_def)
next
  case True
  with filter_well_formed_cases [OF assms] have n: "patterns_of d ''paths'' \<noteq> []"
    by blast
  show ?thesis using True n
    by (simp add: path_filter [OF assms True] py_any_returns no_file_in_paths_def)
qed

lemma truthy_iff_patterns:
  "filter_well_formed d key \<Longrightarrow> truthy (dict_get d key (Y_List [])) = (patterns_of d key \<noteq> [])"
  using filter_well_formed_cases [of d key] by blast

lemma then_do_Inr: "then_do (Inr v) f = f v"
  by (simp add: then_do_def)

lemma matches_branch_push_eq:
  assumes "filter_well_formed d ''branches''" "filter_well_formed d ''branches_ignore''"
    "filter_well_formed d ''paths''" "filter_well_formed d ''paths_ignore''"
  shows "matches_branch_push lib event (Y_Map d) =
     Inr (branch_filters_pass lib event d \<and> path_filters_pass lib event d)"
proof -
  have t: "(truthy (dict_get d ''paths'' (Y_List [])) \<or> truthy (dict_get d ''paths_ignore'' (Y_List [])))
        \<or> (\<not> all_files_ignored lib event d \<and> \<not> no_file_in_paths lib event d)"
    using truthy_iff_patterns [OF assms(3)] truthy_iff_patterns [OF assms(4)]
    by (auto simp: all_files_ignored_def no_file_in_paths_def)
  have "matches_branch_push lib event (Y_Map d) =
     (if patterns_of d ''branches_ignore'' \<noteq> []
         \<and> ref_list_matches lib (branch event) (patterns_of d ''branches_ignore'')
      then Inr False
      else if \<not> (patterns_of d ''branches'' = []
                 \<or> ref_list_matches lib (branch event) (patterns_of d ''branches''))
      then Inr False
      else if truthy (dict_get d ''paths'' (Y_List []))
                \<or> truthy (dict_get d ''paths_ignore'' (Y_List []))
      then (if all_files_ignored lib event d then Inr False
            else if \<not> \<not> no_file_in_paths lib event d then Inr False else Inr True)
      else Inr True)"
    unfolding matches_branch_push_def
    apply (simp only: py_get.simps then_do_Inr)
    apply (simp only: ref_filter [OF assms(1)] ref_filter [OF assms(2)]
        paths_filter [OF assms(3)] paths_ignore_filter [OF assms(4)])
    apply (simp only: then_do_Inr)
    apply simp
    done
  then show ?thesis using t
    by (auto simp: branch_filters_pass_def path_filters_pass_def ref_list_matches_def)
qed

lemma matches_tag_push_eq:
  assumes "filter_well_formed d ''tags''" "filter_well_formed d ''tags_ignore''" "is_tag event"
  shows "matches_tag_push lib event (Y_Map d) =
     Inr (tag_name event \<noteq> [] \<and> tag_filters_pass lib event d)"
proof -
  from assms(3) have t: "tag event = Some (tag_name event)"
    by (simp add: is_tag_def tag_def tag_name_def)
  have "matches_tag_push lib event (Y_Map d) =
     (if tag_name event = [] then Inr False
      else if patterns_of d ''tags_ignore'' \<noteq> []
         \<and> ref_list_matches lib (tag_name event) (patterns_of d ''tags_ignore'')
      then Inr False
      else if \<not> (patterns_of d ''tags'' = []
                 \<or> ref_list_matches lib (tag_name event) (patterns_of d ''tags''))
      then Inr False
      else if \<not> truthy (dict_get d ''tags'' (Y_List [])) then Inr False
      else Inr True)"
    unfolding matches_tag_push_def t
    apply (simp only: py_get.simps then_do_Inr option.case)
    apply (simp only: ref_filter [OF assms(1)] ref_filter [OF assms(2)])
    apply (simp only: then_do_Inr)
    apply simp
    done
  then show ?thesis
    by (auto simp: truthy_iff_patterns [OF assms(1)] tag_filters_pass_def ref_list_matches_def)
qed

text \<open>On a configuration that is well formed for the event, \<open>matches_push\<close> comes down to
  the push entry, whose consulted filters are well formed.\<close>

lemma matches_push_entry:
  assumes "push_filters_well_formed parsed_config event"
  shows "matches_push lib parsed_config event =
     (if push_entry parsed_config = Y_Null then Inr False
      else if push_entry parsed_config = Y_Map [] \<or> push_entry parsed_config = Y_Bool True
      then Inr True
      else if is_tag event then matches_tag_push lib event (push_entry parsed_config)
      else matches_branch_push lib event (push_entry parsed_config))"
proof -
  from assms obtain m where m: "parsed_config = Y_Map m"
    unfolding push_filters_well_formed_def by (cases parsed_config) simp_all
  from assms obtain t where t: "dict_get m ''on'' (Y_Map []) = Y_Map t"
    unfolding push_filters_well_formed_def m by (cases "dict_get m ''on'' (Y_Map [])") simp_all
  show ?thesis
    by (simp add: matches_push_def matcher_triggers_def push_entry_def m t then_do_def)
qed

lemma well_formed_entry:
  assumes "push_filters_well_formed parsed_config event"
  shows "case push_entry parsed_config of
           Y_Null \<Rightarrow> True
         | Y_Bool b \<Rightarrow> b
         | Y_Map d \<Rightarrow>
             d = []
             \<or> (if is_tag event
                 then filter_well_formed d ''tags'' \<and> filter_well_formed d ''tags_ignore''
                 else filter_well_formed d ''branches''
                      \<and> filter_well_formed d ''branches_ignore''
                      \<and> filter_well_formed d ''paths''
                      \<and> filter_well_formed d ''paths_ignore'')
         | _ \<Rightarrow> False"
proof -
  from assms obtain m where m: "parsed_config = Y_Map m"
    unfolding push_filters_well_formed_def by (cases parsed_config) simp_all
  from assms obtain t where t: "dict_get m ''on'' (Y_Map []) = Y_Map t"
    unfolding push_filters_well_formed_def m by (cases "dict_get m ''on'' (Y_Map [])") simp_all
  from assms show ?thesis
    by (simp add: push_filters_well_formed_def push_entry_def m t)
qed

lemma matches_push_returns:
  assumes "push_filters_well_formed parsed_config event"
  shows "\<exists>b. matches_push lib parsed_config event = Inr b"
proof (cases "push_entry parsed_config")
  case (Y_Map d)
  show ?thesis
  proof (cases "d = []")
    case True
    with Y_Map show ?thesis by (auto simp: matches_push_entry [OF assms])
  next
    case False
    show ?thesis
    proof (cases "is_tag event")
      case True
      with well_formed_entry [OF assms] Y_Map False
      have "filter_well_formed d ''tags''" "filter_well_formed d ''tags_ignore''"
        by simp_all
      from matches_tag_push_eq [OF this True] Y_Map False True show ?thesis
        by (auto simp: matches_push_entry [OF assms])
    next
      case nt: False
      with well_formed_entry [OF assms] Y_Map False
      have "filter_well_formed d ''branches''" "filter_well_formed d ''branches_ignore''"
        "filter_well_formed d ''paths''" "filter_well_formed d ''paths_ignore''"
        by simp_all
      from matches_branch_push_eq [OF this] Y_Map False nt show ?thesis
        by (auto simp: matches_push_entry [OF assms])
    qed
  qed
qed (use well_formed_entry [OF assms] in \<open>auto simp: matches_push_entry [OF assms]\<close>)




text \<open>A filter that is a string and not a list is iterated character by character: what the
  parser stores for \<open>branches: main\<close> matches a push to a branch \<open>m\<close> and not a push to
  \<open>main\<close>.\<close>

lemma bare_string_filter_iterates_characters:
  "parse_errors_of bare_branch_document = Inr []
   \<and> matches_push py_lib (parsed_config_of bare_branch_document) (push_of ''refs/heads/main'' [])
       = Inr False
   \<and> matches_push py_lib (parsed_config_of bare_branch_document) (push_of ''refs/heads/m'' [])
       = Inr True"
  by code_simp

subsection \<open>Path patterns\<close>

text \<open>
  Claim C6. In path matching \<open>*\<close> matches any run of characters except \<open>/\<close>, as in ref
  matching, and \<open>**/x\<close> matches \<open>x\<close> at any depth, depth zero included.
  \<open>_matches_path_pattern\<close> tries \<open>fnmatch\<close> first, whose \<open>*\<close> crosses \<open>/\<close>: the
  pattern \<open>*.md\<close> matches the path \<open>docs/a.md\<close>, which \<open>_matches_pattern\<close> refuses as
  a ref. And neither \<open>fnmatch\<close> nor the expression built for \<open>**\<close>, whose \<open>/\<close> stays
  mandatory, matches at depth zero: \<open>**/*.md\<close> does not match \<open>README.md\<close>. The patterns
  and expressions involved are in the modelled fragment of the library.
\<close>

theorem path_wildcards_diverge:
  "matches_path_pattern py_lib ''docs/a.md'' (Y_Str ''*.md'') = Inr True
   \<and> matches_pattern py_lib ''docs/a.md'' (Y_Str ''*.md'') = Inr False
   \<and> matches_path_pattern py_lib ''README.md'' (Y_Str ''**/*.md'') = Inr False
   \<and> fn_modelled ''*.md'' \<and> re_modelled (ref_regex_pattern ''*.md'')
   \<and> fn_modelled ''**/*.md'' \<and> re_modelled (path_regex_pattern ''**/*.md'')"
  by code_simp

text \<open>In scenario S2 the file \<open>README.md\<close> is therefore not ignored, and the push
  matches.\<close>

lemma scenario_S2_matches:
  "matches_push py_lib (parsed_config_of scenario_S2_document) scenario_S2_push = Inr True"
  by code_simp
subsection \<open>The webhook view\<close>

lemma process_pipeline_deleted:
  "pe_deleted event \<Longrightarrow>
   process_pipeline lib next_id now ''push'' (Push event) st p = (st, Inr None)
   \<or> (\<exists>x. process_pipeline lib next_id now ''push'' (Push event) st p = (st, Inl x))"
  by (simp add: process_pipeline_def create_execution_for_push_def
      split: option.splits sum.splits)

lemma process_pipeline_deleted_returns:
  "pe_deleted event \<Longrightarrow> push_matcher_returns lib event p \<Longrightarrow>
   process_pipeline lib next_id now ''push'' (Push event) st p = (st, Inr None)"
  by (auto simp: process_pipeline_def create_execution_for_push_def push_matcher_returns_def
      matches_push_def then_do_def split: option.splits sum.splits)

lemma process_event_deleted:
  "pe_deleted event \<Longrightarrow>
   process_event lib next_id now ''push'' (Push event) pipelines st = (st, Inr [])
   \<or> (\<exists>x. process_event lib next_id now ''push'' (Push event) pipelines st = (st, Inl x))"
proof (induction pipelines)
  case Nil
  show ?case by simp
next
  case (Cons p pipelines)
  from process_pipeline_deleted [OF Cons.prems, of lib next_id now st p] Cons.IH [OF Cons.prems]
  show ?case by auto
qed

lemma process_event_deleted_returns:
  "pe_deleted event \<Longrightarrow> \<forall>p \<in> set pipelines. push_matcher_returns lib event p \<Longrightarrow>
   process_event lib next_id now ''push'' (Push event) pipelines st = (st, Inr [])"
  by (induction pipelines) (simp_all add: process_pipeline_deleted_returns)

text \<open>
  Claim C10. For every push event whose \<open>deleted\<close> flag is true, the webhook handler
  creates no execution for any pipeline, whatever the trigger configurations: the loop of
  \<open>_process_event\<close> leaves the state unchanged, and it either returns an empty list of
  executions or is left by an exception of the matcher; it returns, with the empty list,
  whenever the matcher returns on the configuration of each pipeline.
\<close>

theorem deleted_push_creates_nothing:
  "pe_deleted event \<Longrightarrow>
   fst (process_event lib next_id now ''push'' (Push event) pipelines st) = st
   \<and> (snd (process_event lib next_id now ''push'' (Push event) pipelines st) = Inr []
      \<or> (\<exists>x. snd (process_event lib next_id now ''push'' (Push event) pipelines st) = Inl x))
   \<and> ((\<forall>p \<in> set pipelines. push_matcher_returns lib event p) \<longrightarrow>
        process_event lib next_id now ''push'' (Push event) pipelines st = (st, Inr []))"
proof -
  assume d: "pe_deleted event"
  from process_event_deleted [OF d, of lib next_id now pipelines st]
  have "fst (process_event lib next_id now ''push'' (Push event) pipelines st) = st
   \<and> (snd (process_event lib next_id now ''push'' (Push event) pipelines st) = Inr []
      \<or> (\<exists>x. snd (process_event lib next_id now ''push'' (Push event) pipelines st) = Inl x))"
    by auto
  with process_event_deleted_returns [OF d, of pipelines lib next_id now st]
  show ?thesis by blast
qed

theorem deleted_push_creates_nothing_witness:
  "matches_push py_lib (parsed_config_of scenario_S1_document) branch_deletion = Inr True
   \<and> pe_deleted branch_deletion
   \<and> process_event py_lib length 60 ''push'' (Push branch_deletion) [main_pipeline] two_runs
       = (two_runs, Inr [])
   \<and> fst (process_event py_lib length 60 ''push'' (Push tag_deletion)
            [main_pipeline, numeric_tag_pipeline] two_runs) = two_runs"
proof -
  have d: "pe_deleted branch_deletion" by (simp add: branch_deletion_def)
  have t: "pe_deleted tag_deletion" by (simp add: tag_deletion_def)
  have m: "matches_push py_lib (parsed_config_of scenario_S1_document) branch_deletion = Inr True"
    by code_simp
  have r: "\<forall>p \<in> set [main_pipeline]. push_matcher_returns py_lib branch_deletion p"
    by code_simp
  from d m r deleted_push_creates_nothing [OF d, of py_lib length 60 "[main_pipeline]" two_runs]
    deleted_push_creates_nothing [OF t, of py_lib length 60
      "[main_pipeline, numeric_tag_pipeline]" two_runs]
  show ?thesis by blast
qed

text \<open>The matcher returns on every configuration whose filters are well formed for the
  event; with such configurations the loop returns.\<close>

lemma well_formed_matcher_returns:
  assumes "\<And>config. get_latest_config p = Some config \<Longrightarrow>
             push_filters_well_formed (cf_parsed_config config) event"
  shows "push_matcher_returns lib event p"
proof (cases "get_latest_config p")
  case None
  then show ?thesis by (simp add: push_matcher_returns_def)
next
  case (Some config)
  from assms [OF Some] obtain b where "matches_push lib (cf_parsed_config config) event = Inr b"
    using matches_push_returns by blast
  with Some show ?thesis by (simp add: push_matcher_returns_def)
qed

lemma deleted_push_well_formed_returns:
  assumes "pe_deleted event"
    and "\<And>p config. p \<in> set pipelines \<Longrightarrow> get_latest_config p = Some config \<Longrightarrow>
           push_filters_well_formed (cf_parsed_config config) event"
  shows "process_event lib next_id now ''push'' (Push event) pipelines st = (st, Inr [])"
proof -
  have "\<forall>p \<in> set pipelines. push_matcher_returns lib event p"
    using assms(2) by (auto intro: well_formed_matcher_returns)
  with assms(1) show ?thesis by (rule process_event_deleted_returns)
qed

text \<open>The deletion of a tag, with a pipeline whose tag pattern is a number: the matcher
  raises, and the state is as it was.\<close>

lemma deleted_tag_push_raises:
  "process_event py_lib length 60 ''push'' (Push tag_deletion)
     [main_pipeline, numeric_tag_pipeline] two_runs = (two_runs, Inl TypeError)"
  by code_simp

text \<open>The two webhook paths allocate the number of \<open>get_next_number\<close>, which is free, and
  so never fail on the unique constraint.\<close>

lemma create_execution_for_push_number:
  "\<not> pe_deleted event \<Longrightarrow>
   \<exists>st'. create_execution_for_push next_id now st p config event
           = (st', Inr (Some (new_execution next_id (ws_executions st) p config ''push'')))
         \<and> ex_number (new_execution next_id (ws_executions st) p config ''push'')
           = get_next_number (ws_executions st) (pl_id p)"
  using get_next_number_fresh [of "pl_id p" "ws_executions st"]
  by (simp add: create_execution_for_push_def objects_create_def new_execution_def
      get_next_number_def Let_def)

lemma create_execution_for_pr_number:
  "\<exists>st'. create_execution_for_pr next_id now st p config event
           = (st', Inr (Some (new_execution next_id (ws_executions st) p config ''pull_request'')))
         \<and> ex_number (new_execution next_id (ws_executions st) p config ''pull_request'')
           = get_next_number (ws_executions st) (pl_id p)"
  using get_next_number_fresh [of "pl_id p" "ws_executions st"]
  by (simp add: create_execution_for_pr_def objects_create_def new_execution_def
      get_next_number_def Let_def)
subsection \<open>The YAML parser\<close>

lemma parse_scenario_S5:
  "map_sum id snd (parse 10 scenario_S5) = Inr [''Circular dependency detected in job graph'']"
  by code_simp

text \<open>
  Claim C3. For every input, \<open>parse\<close> returns a pair of the configuration and the errors
  and never raises; every failure is appended to the errors. The parser reads the fields of
  a job and of a push trigger with \<open>config.get\<close> without testing that they are mappings:
  on the document \<open>jobs: {build: make}\<close>, and on \<open>"on": {push: main}\<close>,
  \<open>'str' object has no attribute 'get'\<close> leaves \<open>parse\<close> as an
  \<open>AttributeError\<close>, whatever the recursion limit.
\<close>

theorem parse_raises_attribute_error:
  "parse limit job_is_string = Inl AttributeError
   \<and> parse limit push_is_string = Inl AttributeError"
  by (simp add: parse_def job_is_string_def push_is_string_def parse_config_def parse_triggers_def
      parse_jobs_def parse_job_def dict_get_def then_do_def job_key_matches_def
      key_first_char_def key_char_def)

text \<open>The shape of what \<open>parse\<close> returns, as far as the push trigger goes.\<close>

lemma parse_push_trigger_map:
  "parse_push_trigger c = Inr t \<Longrightarrow> \<exists>d. t = Y_Map d"
  by (cases c) auto

lemma trigger_names_values:
  "trigger_names xs = Inr d \<Longrightarrow> (k, v) \<in> set d \<Longrightarrow> v = Y_Map []"
proof (induction xs arbitrary: d)
  case Nil
  then show ?case by simp
next
  case (Cons x xs)
  then show ?case
    by (auto simp: then_do_def split: if_splits sum.splits)
qed

lemma parse_triggers_push:
  assumes "parse_triggers on_config errors = Inr (triggers, errors')"
  shows "case triggers of
           Y_Map t \<Rightarrow> (case dict_get t ''push'' Y_Null of
                         Y_Null \<Rightarrow> True | Y_Map d \<Rightarrow> True | _ \<Rightarrow> False)
         | _ \<Rightarrow> False"
proof (cases on_config)
  case (Y_Str s)
  with assms show ?thesis by (auto simp: parse_triggers_def dict_get_def)
next
  case (Y_List xs)
  with assms obtain d where d: "trigger_names xs = Inr d" "triggers = Y_Map d"
    by (auto simp: parse_triggers_def then_do_def split: sum.splits)
  show ?thesis
  proof (cases "map_of d (Y_Str ''push'')")
    case None
    with d show ?thesis by (simp add: dict_get_def)
  next
    case (Some v)
    then have "(Y_Str ''push'', v) \<in> set d" by (rule map_of_SomeD)
    with d(1) have "v = Y_Map []" by (rule trigger_names_values)
    with Some d show ?thesis by (simp add: dict_get_def)
  qed
next
  case (Y_Map m)
  with assms show ?thesis
    by (auto simp: parse_triggers_def then_do_def dict_get_def
        dest!: parse_push_trigger_map split: sum.splits option.splits prod.splits)
qed (use assms in \<open>auto simp: parse_triggers_def dict_get_def\<close>)

lemma parse_config_on:
  assumes "parse_config limit raw errors = Inr (config, errors')"
  shows "case config of
           Y_Map m \<Rightarrow>
             (case dict_get m ''on'' (Y_Map []) of
                Y_Map t \<Rightarrow> (case dict_get t ''push'' Y_Null of
                              Y_Null \<Rightarrow> True | Y_Map d \<Rightarrow> True | _ \<Rightarrow> False)
              | _ \<Rightarrow> False)
         | _ \<Rightarrow> False"
proof -
  from assms obtain triggers e1 where
    t: "parse_triggers (dict_get raw ''on'' (Y_Map [])) errors = Inr (triggers, e1)"
    and c: "case config of Y_Map m \<Rightarrow> dict_get m ''on'' (Y_Map []) = triggers | _ \<Rightarrow> False"
    by (auto simp: parse_config_def then_do_def dict_get_def split: sum.splits prod.splits)
  from parse_triggers_push [OF t] c show ?thesis
    by (cases config) simp_all
qed

text \<open>Whatever the document, the configuration that \<open>parse\<close> returns is a mapping with a
  mapping under \<open>on\<close> whose push entry is absent or a mapping: of the conditions of
  \<open>push_filters_well_formed\<close> only those on the filters can fail on a parsed configuration.\<close>

lemma parse_output_shape:
  assumes "parse limit document = Inr (config, errors)"
  shows "case config of
           Y_Map m \<Rightarrow>
             (case dict_get m ''on'' (Y_Map []) of
                Y_Map t \<Rightarrow> (case dict_get t ''push'' Y_Null of
                              Y_Null \<Rightarrow> True | Y_Map d \<Rightarrow> True | _ \<Rightarrow> False)
              | _ \<Rightarrow> False)
         | _ \<Rightarrow> False"
proof (cases document)
  case (YAML_Error e)
  with assms show ?thesis by (auto simp: parse_def dict_get_def)
next
  case (Loaded v)
  show ?thesis
  proof (cases v)
    case (Y_Map raw)
    with assms Loaded have "parse_config limit raw [] = Inr (config, errors)"
      by (simp add: parse_def)
    then show ?thesis by (rule parse_config_on)
  qed (use assms Loaded in \<open>auto simp: parse_def dict_get_def\<close>)
qed

subsection \<open>Ref patterns\<close>

text \<open>Every ref pattern gives an expression of the modelled fragment, and on values without
  a newline ref matching is matching with the wildcards of the specification.\<close>

lemma special_simps [simp]:
  "bsl \<in> set re_special_chars" "CHR ''*'' \<in> set re_special_chars"
  "CHR ''?'' \<in> set re_special_chars" "CHR ''.'' \<in> set re_special_chars"
  "CHR ''['' \<in> set re_special_chars" "CHR ''^'' \<in> set re_special_chars"
  "CHR ''$'' \<in> set re_special_chars"
  by (simp_all add: re_special_chars_def)

lemma re_escape_Cons: "re_escape (c # cs) = esc c @ re_escape cs"
  by (simp add: re_escape_def esc_def)

lemma re_escape_Nil: "re_escape [] = []"
  by (simp add: re_escape_def)

lemma replace_stage1:
  "replace (re_escape p) [bsl, CHR ''*'', bsl, CHR ''*''] ''.*'' = stage1 p"
proof (induction p rule: stage1.induct)
  case 1
  show ?case by (simp add: re_escape_Nil)
next
  case (2 c)
  show ?case by (simp add: re_escape_Cons re_escape_Nil esc_def startswith_def)
next
  case (3 c d ds)
  show ?case
  proof (cases "c = CHR ''*'' \<and> d = CHR ''*''")
    case True
    with 3 show ?thesis
      by (simp add: re_escape_Cons esc_def startswith_def)
  next
    case False
    with 3 have IH: "replace (esc d @ re_escape ds) [bsl, CHR ''*'', bsl, CHR ''*''] ''.*'' = stage1 (d # ds)"
      by (simp add: re_escape_Cons)
    from False show ?thesis
      using IH
      by (auto simp: re_escape_Cons esc_def startswith_def)
  qed
qed


lemma stage1_hd: "stage1 p = x # xs \<Longrightarrow> x \<noteq> CHR ''*''"
  by (induction p rule: stage1.induct) (auto simp: esc_def split: if_splits)

lemma replace_stage2:
  "replace (stage1 p) [bsl, CHR ''*''] ''[^/]*'' = stage2 p"
proof (induction p rule: stage2.induct)
  case 1
  show ?case by simp
next
  case (2 c)
  show ?case by (simp add: esc_def startswith_def)
next
  case (3 c d ds)
  have hd: "\<And>x xs. stage1 (d # ds) = x # xs \<Longrightarrow> x \<noteq> CHR ''*''"
    by (rule stage1_hd)
  show ?case
  proof (cases "c = CHR ''*'' \<and> d = CHR ''*''")
    case True
    with 3 show ?thesis by (simp add: startswith_def)
  next
    case False
    with 3 have IH: "replace (stage1 (d # ds)) [bsl, CHR ''*''] ''[^/]*'' = stage2 (d # ds)"
      by auto
    show ?thesis
    proof (cases "stage1 (d # ds)")
      case Nil
      with False IH show ?thesis
        by (auto simp: esc_def startswith_def simp del: stage1.simps(3) stage2.simps(3))
           (auto simp: esc_def startswith_def)
    next
      case (Cons x xs)
      with hd have "x \<noteq> CHR ''*''" by blast
      with False IH Cons show ?thesis
        by (auto simp: esc_def startswith_def)
    qed
  qed
qed


lemma stage2_hd: "stage2 p = x # xs \<Longrightarrow> x \<noteq> CHR ''?''"
  by (induction p rule: stage2.induct) (auto simp: esc_def split: if_splits)

lemma replace_stage3:
  "replace (stage2 p) [bsl, CHR ''?''] ''.'' = stage3 p"
proof (induction p rule: stage3.induct)
  case 1
  show ?case by simp
next
  case (2 c)
  show ?case by (simp add: esc_def startswith_def)
next
  case (3 c d ds)
  have hd: "\<And>x xs. stage2 (d # ds) = x # xs \<Longrightarrow> x \<noteq> CHR ''?''"
    by (rule stage2_hd)
  show ?case
  proof (cases "c = CHR ''*'' \<and> d = CHR ''*''")
    case True
    with 3 show ?thesis by (simp add: startswith_def)
  next
    case False
    with 3 have IH: "replace (stage2 (d # ds)) [bsl, CHR ''?''] ''.'' = stage3 (d # ds)"
      by auto
    show ?thesis
    proof (cases "stage2 (d # ds)")
      case Nil
      with False IH show ?thesis
        by (auto simp: esc_def startswith_def)
    next
      case (Cons x xs)
      with hd have "x \<noteq> CHR ''?''" by blast
      with False IH Cons show ?thesis
        by (auto simp: esc_def startswith_def)
    qed
  qed
qed

lemma ref_regex_pattern_stage3: "ref_regex_pattern p = ''^'' @ stage3 p @ ''$''"
  by (simp add: ref_regex_pattern_def Let_def replace_stage1 replace_stage2 replace_stage3)

lemma re_lex_esc: "re_lex (esc c @ cs) = T_Atom (Lit c) # re_lex cs"
  by (auto simp: esc_def re_special_chars_def is_ascii_alnum_def)

lemma re_lex_stage3: "re_lex (stage3 p @ ''$'') = item_tokens (ref_items p)"
  by (induction p rule: stage3.induct) (auto simp: re_lex_esc startswith_def)

lemma re_items_item_tokens:
  "\<forall>i \<in> set is. snd i \<noteq> Opt \<Longrightarrow> re_items (item_tokens is) = Compiled is True"
proof (induction "is")
  case Nil
  show ?case by simp
next
  case (Cons i "is")
  obtain a q where i: "i = (a, q)" by (cases i)
  from Cons have IH: "re_items (item_tokens is) = Compiled is True" by simp
  from Cons.prems i have q: "q = Once \<or> q = Star" by (cases q) auto
  show ?case
  proof (cases "is")
    case Nil
    with q i show ?thesis by auto
  next
    case (Cons j js)
    obtain b r where j: "j = (b, r)" by (cases j)
    from IH Cons j q i show ?thesis by (auto split: if_splits)
  qed
qed

lemma ref_items_no_opt: "\<forall>i \<in> set (ref_items p). snd i \<noteq> Opt"
  by (induction p rule: ref_items.induct) auto

text \<open>The expression of any ref pattern compiles, to the items of \<open>ref_items\<close> with the
  final anchor: no ref pattern leaves the modelled fragment or raises \<open>re.error\<close>.\<close>

lemma re_compile_ref_regex_pattern:
  "re_compile (ref_regex_pattern p) = Compiled (ref_items p) True"
proof -
  have "re_lex (''^'' @ stage3 p @ ''$'') = T_Caret # item_tokens (ref_items p)"
    using re_lex_stage3 [of p] by simp
  then show ?thesis
    by (simp add: re_compile_def ref_regex_pattern_stage3 re_items_item_tokens ref_items_no_opt)
qed


lemma re_run_star_append:
  "\<forall>c \<in> set r. atom_matches a c \<Longrightarrow> re_run is anchored s \<Longrightarrow>
   re_run ((a, Star) # is) anchored (r @ s)"
proof (induction r)
  case Nil
  then show ?case by (cases s) auto
next
  case (Cons c r)
  then show ?case by auto
qed

lemma re_run_star_split:
  "re_run ((a, Star) # is) anchored v \<Longrightarrow>
   \<exists>r s. v = r @ s \<and> (\<forall>c \<in> set r. atom_matches a c) \<and> re_run is anchored s"
proof (induction v)
  case Nil
  then show ?case by auto
next
  case (Cons c v)
  from Cons.prems have "(atom_matches a c \<and> re_run ((a, Star) # is) anchored v)
      \<or> re_run is anchored (c # v)" by simp
  then show ?case
  proof
    assume h: "atom_matches a c \<and> re_run ((a, Star) # is) anchored v"
    with Cons.IH obtain r s where "v = r @ s" "\<forall>c \<in> set r. atom_matches a c" "re_run is anchored s"
      by blast
    with h have "c # v = (c # r) @ s \<and> (\<forall>x \<in> set (c # r). atom_matches a x) \<and> re_run is anchored s"
      by simp
    then show ?thesis by blast
  next
    assume "re_run is anchored (c # v)"
    then have "c # v = [] @ (c # v) \<and> (\<forall>x \<in> set []. atom_matches a x) \<and> re_run is anchored (c # v)"
      by simp
    then show ?thesis by blast
  qed
qed


lemma ref_glob_imp_re_run:
  "ref_glob p v \<Longrightarrow> newline \<notin> set v \<Longrightarrow> re_run (ref_items p) True v"
proof (induction rule: ref_glob.induct)
  case rg_nil
  show ?case by simp
next
  case (rg_any ps s r)
  then have "re_run ((Any_Char, Star) # ref_items ps) True (r @ s)"
    by (intro re_run_star_append) auto
  then show ?case by simp
next
  case (rg_star ps s r)
  then have run: "re_run ((Not_Slash, Star) # ref_items ps) True (r @ s)"
    by (intro re_run_star_append) auto
  from rg_star.hyps(3) show ?case
    using run by (cases ps) (auto simp: startswith_def)
next
  case (rg_quest ps s c)
  then show ?case by (cases ps) auto
next
  case (rg_lit p ps s)
  then show ?case by (cases ps) auto
qed

lemma re_run_imp_ref_glob:
  "re_run (ref_items p) True v \<Longrightarrow> newline \<notin> set v \<Longrightarrow> ref_glob p v"
proof (induction p arbitrary: v rule: ref_items.induct)
  case 1
  then have "v = []" by (cases v) auto
  then show ?case by (simp add: rg_nil)
next
  case (2 c)
  show ?case
  proof (cases "c = CHR ''*''")
    case True
    with "2.prems" have "re_run ((Not_Slash, Star) # []) True v" by simp
    from re_run_star_split [OF this] obtain r s where
      v: "v = r @ s" and r: "\<forall>x \<in> set r. atom_matches Not_Slash x" and s: "re_run [] True s"
      by blast
    from s "2.prems"(2) v have "s = []" by auto
    moreover from r have "CHR ''/'' \<notin> set r" by auto
    ultimately show ?thesis
      using rg_star [OF rg_nil, of r] v True by (simp add: startswith_def)
  next
    case False
    note nstar = False
    show ?thesis
    proof (cases v)
      case Nil
      with "2.prems" nstar show ?thesis by (simp split: if_splits)
    next
      case (Cons x xs)
      show ?thesis
      proof (cases "c = CHR ''?''")
        case True
        with "2.prems" Cons have "xs = []" by (cases xs) auto
        with True Cons show ?thesis using rg_quest [OF rg_nil, of x] by simp
      next
        case False
        with "2.prems" Cons nstar have "x = c \<and> xs = []" by (cases xs) auto
        with False nstar Cons show ?thesis using rg_lit [OF _ _ rg_nil, of c] by simp
      qed
    qed
  qed
next
  case (3 c d ds)
  show ?case
  proof (cases "c = CHR ''*''")
    case True
    note cstar = True
    show ?thesis
    proof (cases "d = CHR ''*''")
      case True
      with cstar "3.prems" have "re_run ((Any_Char, Star) # ref_items ds) True v" by simp
      from re_run_star_split [OF this] obtain r s where
        v: "v = r @ s" and s: "re_run (ref_items ds) True s"
        by blast
      from v "3.prems"(2) have "newline \<notin> set s" by simp
      with "3.IH"(1) cstar True s have "ref_glob ds s" by simp
      from rg_any [OF this, of r] v cstar True show ?thesis by simp
    next
      case False
      with cstar "3.prems" have "re_run ((Not_Slash, Star) # ref_items (d # ds)) True v" by simp
      from re_run_star_split [OF this] obtain r s where
        v: "v = r @ s" and r: "\<forall>x \<in> set r. atom_matches Not_Slash x"
        and s: "re_run (ref_items (d # ds)) True s"
        by blast
      from v "3.prems"(2) have "newline \<notin> set s" by simp
      with "3.IH"(2) cstar False s have g: "ref_glob (d # ds) s" by simp
      from r have "CHR ''/'' \<notin> set r" by auto
      from rg_star [OF g this] False v cstar show ?thesis by (simp add: startswith_def)
    qed
  next
    case False
    note nstar = False
    show ?thesis
    proof (cases v)
      case Nil
      with "3.prems" nstar show ?thesis by (simp split: if_splits)
    next
      case (Cons x xs)
      from Cons "3.prems"(2) have nl: "newline \<notin> set xs" by simp
      show ?thesis
      proof (cases "c = CHR ''?''")
        case True
        with "3.prems" Cons nstar have "re_run (ref_items (d # ds)) True xs" by simp
        with "3.IH"(3) nstar True nl have "ref_glob (d # ds) xs" by simp
        from rg_quest [OF this, of x] True Cons show ?thesis by simp
      next
        case False
        with "3.prems" Cons nstar have "x = c" and "re_run (ref_items (d # ds)) True xs" by simp_all
        with "3.IH"(4) nstar False nl have "ref_glob (d # ds) xs" by simp
        from rg_lit [OF nstar False this] \<open>x = c\<close> Cons show ?thesis by simp
      qed
    qed
  qed
qed

lemma ref_glob_refl: "ref_glob p p"
proof (induction p rule: ref_items.induct)
  case 1
  show ?case by (rule rg_nil)
next
  case (2 c)
  show ?case
    using rg_star [OF rg_nil, of "[c]"] rg_quest [OF rg_nil, of c] rg_lit [OF _ _ rg_nil, of c]
    by (cases "c = CHR ''*''"; cases "c = CHR ''?''") (auto simp: startswith_def)
next
  case (3 c d ds)
  show ?case
  proof (cases "c = CHR ''*'' \<and> d = CHR ''*''")
    case True
    with 3 have "ref_glob ds ds" by simp
    from rg_any [OF this, of "''**''"] True show ?thesis by simp
  next
    case False
    with 3 have IH: "ref_glob (d # ds) (d # ds)" by auto
    show ?thesis
    proof (cases "c = CHR ''*''")
      case True
      with False have "d \<noteq> CHR ''*''" by simp
      with rg_star [OF IH, of "[c]"] True show ?thesis by (simp add: startswith_def)
    next
      case False
      with IH show ?thesis
        by (cases "c = CHR ''?''") (auto intro: rg_quest rg_lit)
    qed
  qed
qed

text \<open>Ref matching on a value without a newline: \<open>*\<close> stops at \<open>/\<close>, \<open>**\<close> does
  not. (A newline is not matched by \<open>.\<close>, and \<open>$\<close> accepts a final one.)\<close>

lemma matches_pattern_ref_glob:
  "newline \<notin> set v \<Longrightarrow> matches_pattern py_lib v (Y_Str p) = Inr (ref_glob p v)"
  using ref_glob_imp_re_run [of p v] re_run_imp_ref_glob [of p v] ref_glob_refl [of p]
  by (auto simp: matches_pattern_def py_lib_def py_re_match_def re_compile_ref_regex_pattern)

end
